theory Spec2Isabelle
  imports Main
begin

section \<open>Python values and exceptions\<close>

text \<open>
  The tasks of \<^verbatim>\<open>dags/crawler.py\<close> raise no exception of their own; the ones that can
  escape them are raised by the Python operations they use: subscripting a dict with a
  missing key, iterating \<^verbatim>\<open>None\<close>, popping an empty list, and date arithmetic that
  leaves the range of \<^verbatim>\<open>datetime.date\<close>.
\<close>

datatype error = KeyError | TypeError | IndexError | OverflowError

text \<open>JSON values as the content API returns them: strings, null and nested objects.\<close>

datatype jv = JNull | JStr string | JObj "(string \<times> jv) list"

text \<open>
  A Python dict is an association list in insertion order. \<^verbatim>\<open>d[k]\<close> raises KeyError on
  a missing key; \<^verbatim>\<open>d[k] = v\<close> replaces the value in place or appends the new key.
\<close>

definition subscript :: "('k \<times> 'v) list \<Rightarrow> 'k \<Rightarrow> error + 'v" where
  "subscript d k = (case map_of d k of None \<Rightarrow> Inl KeyError | Some v \<Rightarrow> Inr v)"

fun setitem :: "('k \<times> 'v) list \<Rightarrow> 'k \<Rightarrow> 'v \<Rightarrow> ('k \<times> 'v) list" where
  "setitem [] k v = [(k, v)]"
| "setitem (p # ps) k v = (if fst p = k then (k, v) # ps else p # setitem ps k v)"

definition keys :: "('k \<times> 'v) list \<Rightarrow> 'k list" where
  "keys d = map fst d"

text \<open>
  \<^verbatim>\<open>list(set(xs).difference(set(ys)))\<close>: the elements of \<open>xs\<close> that are not in \<open>ys\<close>,
  each once. Python leaves the order of a set's elements open; the model lists them in
  the order of their first occurrence in \<open>xs\<close>, and the general theorems below speak
  of the \<open>set\<close> of the result only.
\<close>

definition set_difference :: "'a list \<Rightarrow> 'a list \<Rightarrow> 'a list" where
  "set_difference xs ys = remdups (filter (\<lambda>x. x \<notin> set ys) xs)"

section \<open>Dates, timestamps and their ISO format\<close>

text \<open>
  \<^verbatim>\<open>datetime.date\<close> holds a year, a month and a day; \<^verbatim>\<open>datetime.datetime\<close> adds the
  time of day and, for an aware timestamp, the offset from UTC (here in whole seconds).
\<close>

record date =
  year :: nat
  month :: nat
  day :: nat

record datetime =
  dt_date :: date
  hour :: nat
  minute :: nat
  second :: nat
  microsecond :: nat
  utcoffset :: "int option"

definition is_leap :: "nat \<Rightarrow> bool" where
  "is_leap y = (y mod 4 = 0 \<and> (y mod 100 \<noteq> 0 \<or> y mod 400 = 0))"

definition days_in_month :: "nat \<Rightarrow> nat \<Rightarrow> nat" where
  "days_in_month y m =
     (if m = 2 then (if is_leap y then 29 else 28)
      else if m = 4 \<or> m = 6 \<or> m = 9 \<or> m = 11 then 30 else 31)"

text \<open>The dates a \<^verbatim>\<open>datetime.date\<close> can hold: years 1 to 9999 of the Gregorian calendar.\<close>

definition valid_date :: "date \<Rightarrow> bool" where
  "valid_date d =
     (1 \<le> year d \<and> year d \<le> 9999 \<and> 1 \<le> month d \<and> month d \<le> 12
      \<and> 1 \<le> day d \<and> day d \<le> days_in_month (year d) (month d))"

text \<open>
  \<^verbatim>\<open>d - timedelta(days=1)\<close>: the day before, and OverflowError before 0001-01-01.
\<close>

definition date_sub_day :: "date \<Rightarrow> error + date" where
  "date_sub_day d =
     (if 1 < day d then Inr (d\<lparr>day := day d - 1\<rparr>)
      else if 1 < month d then
        Inr \<lparr>year = year d, month = month d - 1, day = days_in_month (year d) (month d - 1)\<rparr>
      else if 1 < year d then Inr \<lparr>year = year d - 1, month = 12, day = 31\<rparr>
      else Inl OverflowError)"

text \<open>Subtracting one day from a timestamp keeps the time of day and the offset.\<close>

definition datetime_sub_day :: "datetime \<Rightarrow> error + datetime" where
  "datetime_sub_day t =
     (case date_sub_day (dt_date t) of
        Inl e \<Rightarrow> Inl e
      | Inr d \<Rightarrow> Inr (t\<lparr>dt_date := d\<rparr>))"

text \<open>Decimal digits, \<^verbatim>\<open>"%d"\<close> and the zero padding of \<^verbatim>\<open>"%02d"\<close>, \<^verbatim>\<open>"%04d"\<close>.\<close>

definition digit :: "nat \<Rightarrow> char" where
  "digit n = ''0123456789'' ! (n mod 10)"

fun dec :: "nat \<Rightarrow> string" where
  "dec n = (if n < 10 then [digit n] else dec (n div 10) @ [digit n])"

declare dec.simps [simp del]

definition zpad :: "nat \<Rightarrow> nat \<Rightarrow> string" where
  "zpad w n = replicate (w - length (dec n)) (CHR ''0'') @ dec n"

text \<open>\<^verbatim>\<open>date.isoformat()\<close>: \<^verbatim>\<open>"%04d-%02d-%02d" % (year, month, day)\<close>.\<close>

definition date_isoformat :: "date \<Rightarrow> string" where
  "date_isoformat d = zpad 4 (year d) @ ''-'' @ zpad 2 (month d) @ ''-'' @ zpad 2 (day d)"

text \<open>
  The offset part of \<^verbatim>\<open>datetime.isoformat()\<close>: sign, hours and minutes, and the seconds
  when they are not zero.
\<close>

definition format_offset :: "int \<Rightarrow> string" where
  "format_offset off =
     (let a = nat \<bar>off\<bar> in
      (if off < 0 then ''-'' else ''+'') @ zpad 2 (a div 3600) @ '':''
        @ zpad 2 (a mod 3600 div 60)
        @ (if a mod 60 = 0 then [] else '':'' @ zpad 2 (a mod 60)))"

text \<open>
  \<^verbatim>\<open>datetime.isoformat()\<close>: the date, the separator \<^verbatim>\<open>T\<close>, the time of day, the
  microseconds when they are not zero, and the offset of an aware timestamp.
\<close>

definition datetime_isoformat :: "datetime \<Rightarrow> string" where
  "datetime_isoformat t =
     date_isoformat (dt_date t) @ ''T''
       @ zpad 2 (hour t) @ '':'' @ zpad 2 (minute t) @ '':'' @ zpad 2 (second t)
       @ (if microsecond t = 0 then [] else ''.'' @ zpad 6 (microsecond t))
       @ (case utcoffset t of None \<Rightarrow> [] | Some off \<Rightarrow> format_offset off)"

section \<open>The services the tasks talk to\<close>

text \<open>
  The document store holds four collections. A document of \<^verbatim>\<open>sources\<close> is the dict
  from source id to source that the sources snapshotter writes; a document of
  \<^verbatim>\<open>sources_schema\<close> or \<^verbatim>\<open>article_schema\<close> is a dict from field name to a list of
  strings (the snapshotter writes the one field \<^verbatim>\<open>keys\<close>); an article lives at
  \<^verbatim>\<open>articles/<date>/<keyword>/<hash>\<close>. A collection is a map from document id to
  document: \<^verbatim>\<open>.get().exists\<close> asks whether the id is in its domain, \<^verbatim>\<open>.get().to_dict()\<close>
  is the lookup (\<^verbatim>\<open>None\<close> for a missing document), \<^verbatim>\<open>.set(v)\<close> replaces the document
  and \<^verbatim>\<open>.delete()\<close> removes it.

  The message broker keeps its topics and the messages published so far, oldest first.
  A message is recorded as its topic and the dict that the task hands to
  \<^verbatim>\<open>bytes(json.dumps(...), 'utf8')\<close>. The log keeps the warnings.

  Acquiring a client (with its cool-down and its retry on a missed deadline) is not
  modelled: every task below starts with its clients in hand.

  A task takes the state of the services and returns the state it leaves behind,
  together with the exception that ended it (\<open>None\<close> for a normal return): what a
  task wrote, deleted or published before it raised stays done.
\<close>

type_synonym payload = "(string \<times> string list) list"

record world =
  sources :: "string \<rightharpoonup> (string \<times> jv) list"
  sources_schema :: "string \<rightharpoonup> (string \<times> string list) list"
  article_schema :: "string \<rightharpoonup> (string \<times> string list) list"
  articles :: "(string \<times> string \<times> string) \<rightharpoonup> (string \<times> jv) list"
  topics :: "string list"
  published :: "(string \<times> payload) list"
  warnings :: "string list"

definition COLLECTION_SOURCES_KEY :: string where
  "COLLECTION_SOURCES_KEY = ''sources''"

definition SOURCES_SCHEMA_SOURCES_KEY :: string where
  "SOURCES_SCHEMA_SOURCES_KEY = ''sources-schema''"

definition ARTICLES_SCHEMA_SOURCES_KEY :: string where
  "ARTICLES_SCHEMA_SOURCES_KEY = ''articles-schema''"

text \<open>\<^verbatim>\<open>PublisherClient.topic_path(project, topic)\<close>.\<close>

definition topic_path :: "string \<Rightarrow> string \<Rightarrow> string" where
  "topic_path project topic = ''projects/'' @ project @ ''/topics/'' @ topic"

definition check_pubsub_topic :: "world \<Rightarrow> string \<Rightarrow> world" where
  "check_pubsub_topic w topic =
     (if topic \<notin> set (topics w) then w\<lparr>topics := topics w @ [topic]\<rparr> else w)"

definition publish :: "world \<Rightarrow> string \<Rightarrow> payload \<Rightarrow> world" where
  "publish w topic data = w\<lparr>published := published w @ [(topic, data)]\<rparr>"

section \<open>The tasks\<close>

text \<open>
  \<^verbatim>\<open>_BaseOperator.execute\<close>: the task body \<^verbatim>\<open>execute_\<close> runs with the execution
  timestamp and the timestamp one day before it. The body \<^verbatim>\<open>T.execute_\<close> of a task
  \<open>T\<close> is the constant \<open>T_body\<close> below, and \<open>execute T_body\<close> is the task as
  the scheduler runs it.
\<close>

definition execute ::
  "(datetime \<Rightarrow> datetime \<Rightarrow> 'a \<Rightarrow> 'a \<times> error option) \<Rightarrow> datetime \<Rightarrow> 'a \<Rightarrow> 'a \<times> error option" where
  "execute body execution_date w =
     (case datetime_sub_day execution_date of
        Inl e \<Rightarrow> (w, Some e)
      | Inr prev_execution_date \<Rightarrow> body execution_date prev_execution_date w)"

subsection \<open>Retention pruners\<close>

text \<open>
  The loop of \<^verbatim>\<open>ClearOldSourceData\<close> and \<^verbatim>\<open>ClearOldSchemas\<close>: while the document of
  \<^verbatim>\<open>_date\<close> exists, delete it and step one day back. The loop ends at the first
  missing document, or with OverflowError below 0001-01-01; \<open>date_rank\<close> is the
  measure that decreases.
\<close>

definition date_rank :: "date \<Rightarrow> nat" where
  "date_rank d = year d * 1000 + month d * 50 + day d"

function clear_old :: "(string \<rightharpoonup> 'a) \<Rightarrow> date \<Rightarrow> (string \<rightharpoonup> 'a) \<times> error option" where
  "clear_old c d =
     (if c (date_isoformat d) \<noteq> None then
        (case date_sub_day d of
           Inl e \<Rightarrow> (c(date_isoformat d := None), Some e)
         | Inr d' \<Rightarrow> clear_old (c(date_isoformat d := None)) d')
      else (c, None))"
  by pat_completeness auto
termination
  by (relation "measure (\<lambda>(c, d). date_rank d)")
    (auto simp: date_sub_day_def date_rank_def days_in_month_def split: if_splits)

declare clear_old.simps [simp del]

definition ClearOldSourceData_body :: "datetime \<Rightarrow> datetime \<Rightarrow> world \<Rightarrow> world \<times> error option" where
  "ClearOldSourceData_body execution_date prev_execution_date w =
     (case date_sub_day (dt_date prev_execution_date) of
        Inl e \<Rightarrow> (w, Some e)
      | Inr d \<Rightarrow>
          (case clear_old (sources w) d of
             (c, r) \<Rightarrow> (w\<lparr>sources := c\<rparr>, r)))"

definition ClearOldSchemas_body :: "datetime \<Rightarrow> datetime \<Rightarrow> world \<Rightarrow> world \<times> error option" where
  "ClearOldSchemas_body execution_date prev_execution_date w =
     (case date_sub_day (dt_date prev_execution_date) of
        Inl e \<Rightarrow> (w, Some e)
      | Inr d \<Rightarrow>
          (case clear_old (sources_schema w) d of
             (c1, Some e) \<Rightarrow> (w\<lparr>sources_schema := c1\<rparr>, Some e)
           | (c1, None) \<Rightarrow>
               (case clear_old (article_schema w) d of
                  (c2, r) \<Rightarrow> (w\<lparr>sources_schema := c1, article_schema := c2\<rparr>, r))))"

subsection \<open>Sources: snapshotter and diff notifier\<close>

text \<open>
  \<^verbatim>\<open>{source['id']: source for source in sources}\<close>. The ids of the content API are
  strings; an id that is not a string cannot name a field of a document, and the model
  raises TypeError for it.
\<close>

fun sources_by_id :: "(string \<times> jv) list \<Rightarrow> (string \<times> jv) list list \<Rightarrow> error + (string \<times> jv) list" where
  "sources_by_id acc [] = Inr acc"
| "sources_by_id acc (source # rest) =
     (case subscript source ''id'' of
        Inl e \<Rightarrow> Inl e
      | Inr (JStr i) \<Rightarrow> sources_by_id (setitem acc i (JObj source)) rest
      | Inr _ \<Rightarrow> Inl TypeError)"

text \<open>
  \<^verbatim>\<open>GetNewsSources.execute_\<close>; \<open>fetched\<close> is the list
  \<^verbatim>\<open>newsapi_client.get_sources()['sources']\<close>.
\<close>

definition GetNewsSources_body ::
  "(string \<times> jv) list list \<Rightarrow> datetime \<Rightarrow> datetime \<Rightarrow> world \<Rightarrow> world \<times> error option" where
  "GetNewsSources_body fetched execution_date prev_execution_date w =
     (let date_key = date_isoformat (dt_date execution_date);
          w1 = (if sources w date_key \<noteq> None
                then w\<lparr>warnings := warnings w @ [''overriding sources for date '' @ date_key]\<rparr>
                else w)
      in case sources_by_id [] fetched of
           Inl e \<Rightarrow> (w1, Some e)
         | Inr doc \<Rightarrow> (w1\<lparr>sources := (sources w1)(date_key \<mapsto> doc)\<rparr>, None))"

text \<open>
  \<^verbatim>\<open>CheckAndPublishNewsSources.execute_\<close>. Today's document is read under the date,
  the previous one under the ISO format of the whole previous timestamp. Only the
  previous document is checked for existence; \<^verbatim>\<open>to_dict()\<close> of a missing document is
  \<^verbatim>\<open>None\<close>, and \<^verbatim>\<open>list(None)\<close> raises TypeError.
\<close>

definition CheckAndPublishNewsSources_body ::
  "string \<Rightarrow> datetime \<Rightarrow> datetime \<Rightarrow> world \<Rightarrow> world \<times> error option" where
  "CheckAndPublishNewsSources_body project execution_date prev_execution_date w =
     (let topic = topic_path project COLLECTION_SOURCES_KEY;
          w1 = check_pubsub_topic w topic;
          date_key = date_isoformat (dt_date execution_date);
          prev_key = datetime_isoformat prev_execution_date
      in case sources w1 prev_key of
           None \<Rightarrow> (w1, None)
         | Some prev_doc \<Rightarrow>
             (case sources w1 date_key of
                None \<Rightarrow> (w1, Some TypeError)
              | Some current_doc \<Rightarrow>
                  (let current_keys = keys current_doc;
                       prev_keys = keys prev_doc;
                       remove = set_difference prev_keys current_keys;
                       new = set_difference current_keys prev_keys;
                       w2 = (if remove \<noteq> [] then publish w1 topic [(''remove'', remove)] else w1);
                       w3 = (if new \<noteq> [] then publish w2 topic [(''new'', new)] else w2)
                   in (w3, None))))"

subsection \<open>Schemas: snapshotter and diff notifier\<close>

text \<open>\<^verbatim>\<open>xs.pop()\<close>: the last element, IndexError on the empty list.\<close>

definition pop :: "'a list \<Rightarrow> error + 'a" where
  "pop xs = (if xs = [] then Inl IndexError else Inr (last xs))"

text \<open>
  \<^verbatim>\<open>GetDataSchemas.execute_\<close>; \<open>fetched\<close> is the list
  \<^verbatim>\<open>client.get_sources(language='en').get('sources')\<close> and \<open>headlines\<close> the list
  \<^verbatim>\<open>client.get_top_headlines(page_size=1, page=1).get('articles')\<close>. The task does not
  look at the documents it replaces.
\<close>

definition GetDataSchemas_body ::
  "(string \<times> jv) list list \<Rightarrow> (string \<times> jv) list list \<Rightarrow> datetime \<Rightarrow> datetime \<Rightarrow> world
     \<Rightarrow> world \<times> error option" where
  "GetDataSchemas_body fetched headlines execution_date prev_execution_date w =
     (let date_key = date_isoformat (dt_date execution_date)
      in case pop fetched of
           Inl e \<Rightarrow> (w, Some e)
         | Inr source \<Rightarrow>
             (case pop headlines of
                Inl e \<Rightarrow> (w, Some e)
              | Inr headline \<Rightarrow>
                  (let source_keys = keys source;
                       headline_keys = keys headline
                   in (w\<lparr>sources_schema := (sources_schema w)(date_key \<mapsto> [(''keys'', source_keys)]),
                         article_schema := (article_schema w)(date_key \<mapsto> [(''keys'', headline_keys)])\<rparr>,
                       None))))"

text \<open>
  \<^verbatim>\<open>CheckDataSchemas.execute_\<close> runs the same block twice, on the source schemas and on
  the article schemas. \<open>check_schema\<close> is that block: \<open>prev\<close> and \<open>current\<close> are the two
  reads, \<open>diff_topic\<close> is the topic of the branch where both documents exist and
  \<open>only_current_topic\<close> the topic of the \<^verbatim>\<open>elif\<close> branch.
\<close>

definition check_schema ::
  "(string \<times> string list) list option \<Rightarrow> (string \<times> string list) list option
     \<Rightarrow> string \<Rightarrow> string \<Rightarrow> world \<Rightarrow> world \<times> error option" where
  "check_schema prev current diff_topic only_current_topic w =
     (case (prev, current) of
        (Some prev_doc, Some current_doc) \<Rightarrow>
          (case subscript prev_doc ''keys'' of
             Inl e \<Rightarrow> (w, Some e)
           | Inr prev_keys \<Rightarrow>
               (case subscript current_doc ''keys'' of
                  Inl e \<Rightarrow> (w, Some e)
                | Inr current_keys \<Rightarrow>
                    (let remove = set_difference prev_keys current_keys;
                         new = set_difference current_keys prev_keys;
                         w1 = (if remove \<noteq> []
                               then publish w diff_topic [(''remove'', remove)] else w);
                         w2 = (if new \<noteq> []
                               then publish w1 diff_topic [(''new'', new)] else w1)
                     in (w2, None))))
      | (None, Some current_doc) \<Rightarrow>
          (case subscript current_doc ''keys'' of
             Inl e \<Rightarrow> (w, Some e)
           | Inr current_keys \<Rightarrow>
               (publish w only_current_topic [(''new'', current_keys)], None))
      | (_, None) \<Rightarrow> (w, None))"

definition CheckDataSchemas_body ::
  "string \<Rightarrow> datetime \<Rightarrow> datetime \<Rightarrow> world \<Rightarrow> world \<times> error option" where
  "CheckDataSchemas_body project execution_date prev_execution_date w =
     (let date_key = date_isoformat (dt_date execution_date);
          prev_key = datetime_isoformat prev_execution_date;
          sources_schema_topic = topic_path project SOURCES_SCHEMA_SOURCES_KEY;
          articles_schema_topic = topic_path project ARTICLES_SCHEMA_SOURCES_KEY;
          w1 = check_pubsub_topic w sources_schema_topic;
          w2 = check_pubsub_topic w1 articles_schema_topic
      in case check_schema (sources_schema w2 prev_key) (sources_schema w2 date_key)
                sources_schema_topic articles_schema_topic w2 of
           (w3, Some e) \<Rightarrow> (w3, Some e)
         | (w3, None) \<Rightarrow>
             check_schema (article_schema w3 prev_key) (article_schema w3 date_key)
               articles_schema_topic articles_schema_topic w3)"

subsection \<open>Article fetcher: the loop over one page\<close>

text \<open>
  The identifier of an article, \<^verbatim>\<open>hashlib.md5(bytes(article['url'], 'utf8')).hexdigest()\<close>.
  The hash is a parameter: \<open>md5_hex u\<close> stands for the hex digest of the UTF-8 bytes of
  \<open>u\<close>. A url that is not a string makes \<^verbatim>\<open>bytes\<close> raise TypeError.
\<close>

definition article_hash :: "(string \<Rightarrow> string) \<Rightarrow> (string \<times> jv) list \<Rightarrow> error + string" where
  "article_hash md5_hex article =
     (case subscript article ''url'' of
        Inl e \<Rightarrow> Inl e
      | Inr (JStr u) \<Rightarrow> Inr (md5_hex u)
      | Inr _ \<Rightarrow> Inl TypeError)"

text \<open>
  The body of \<^verbatim>\<open>for article in articles\<close> in \<^verbatim>\<open>GetData.execute_\<close>: tag the article
  with its hash, the keyword and the date, and write it at
  \<^verbatim>\<open>articles/<date>/<keyword>/<hash>\<close>.
\<close>

definition store_article ::
  "(string \<Rightarrow> string) \<Rightarrow> string \<Rightarrow> string \<Rightarrow> world \<Rightarrow> (string \<times> jv) list
     \<Rightarrow> world \<times> error option" where
  "store_article md5_hex date_key keyword w article =
     (case article_hash md5_hex article of
        Inl e \<Rightarrow> (w, Some e)
      | Inr h \<Rightarrow>
          (let a1 = setitem article ''id'' (JStr h);
               a2 = setitem a1 ''keyword'' (JStr keyword);
               a3 = setitem a2 ''date'' (JStr date_key)
           in (w\<lparr>articles := (articles w)((date_key, keyword, h) \<mapsto> a3)\<rparr>, None)))"

fun store_articles ::
  "(string \<Rightarrow> string) \<Rightarrow> string \<Rightarrow> string \<Rightarrow> world \<Rightarrow> (string \<times> jv) list list
     \<Rightarrow> world \<times> error option" where
  "store_articles md5_hex date_key keyword w [] = (w, None)"
| "store_articles md5_hex date_key keyword w (article # rest) =
     (case store_article md5_hex date_key keyword w article of
        (w', Some e) \<Rightarrow> (w', Some e)
      | (w', None) \<Rightarrow> store_articles md5_hex date_key keyword w' rest)"

subsection \<open>Warehouse table provisioner\<close>

text \<open>
  A field of the table, \<^verbatim>\<open>bigquery.SchemaField(name, field_type, fields)\<close>, and a field
  of the declared schema \<^verbatim>\<open>BIGQUERY_TABLE_SCHEMA\<close>: a JSON object with a \<^verbatim>\<open>type\<close>
  (\<open>None\<close> when the key is missing) and the nested fields under \<^verbatim>\<open>fields\<close> (the empty
  list when the key is missing: the code appends nothing in either case).
\<close>

datatype schema_field =
  SchemaField (name: string) (field_type: string) (fields: "schema_field list")

datatype field_decl =
  FieldDecl (decl_type: "string option") (decl_fields: "(string \<times> field_decl) list")

text \<open>
  The local function \<^verbatim>\<open>_get_field_schema\<close>; \<open>get_fields\<close> is its loop over the nested
  fields. \<^verbatim>\<open>field_schema['type']\<close> is evaluated after that loop.
\<close>

fun get_field_schema :: "string \<Rightarrow> field_decl \<Rightarrow> error + schema_field"
  and get_fields :: "(string \<times> field_decl) list \<Rightarrow> error + schema_field list" where
  "get_field_schema field_name (FieldDecl ty nested) =
     (case get_fields nested of
        Inl e \<Rightarrow> Inl e
      | Inr fs \<Rightarrow>
          (case ty of
             None \<Rightarrow> Inl KeyError
           | Some t \<Rightarrow> Inr (SchemaField field_name t fs)))"
| "get_fields [] = Inr []"
| "get_fields ((extra_field, extra_schema) # rest) =
     (case get_field_schema extra_field extra_schema of
        Inl e \<Rightarrow> Inl e
      | Inr f \<Rightarrow>
          (case get_fields rest of
             Inl e \<Rightarrow> Inl e
           | Inr fs \<Rightarrow> Inr (f # fs)))"

text \<open>
  The loop over \<^verbatim>\<open>BIGQUERY_TABLE_SCHEMA.items()\<close>: \<open>current_names\<close> is computed once,
  before the loop, and \<open>new_schema\<close> grows at its end.
\<close>

fun append_missing ::
  "string list \<Rightarrow> (string \<times> field_decl) list \<Rightarrow> schema_field list \<Rightarrow> error + schema_field list" where
  "append_missing current_names [] new_schema = Inr new_schema"
| "append_missing current_names ((field_name, field_schema) # rest) new_schema =
     (if field_name \<notin> set current_names then
        (case get_field_schema field_name field_schema of
           Inl e \<Rightarrow> Inl e
         | Inr f \<Rightarrow> append_missing current_names rest (new_schema @ [f]))
      else append_missing current_names rest new_schema)"

text \<open>
  \<^verbatim>\<open>CheckAndCreateBigQueryTable.execute_\<close> from \<^verbatim>\<open>get_table\<close> on: the table's schema
  goes in, and the schema handed to \<^verbatim>\<open>update_table\<close> comes out (or the exception
  raised before the update).
\<close>

definition CheckAndCreateBigQueryTable_body ::
  "(string \<times> field_decl) list \<Rightarrow> schema_field list \<Rightarrow> error + schema_field list" where
  "CheckAndCreateBigQueryTable_body BIGQUERY_TABLE_SCHEMA current_schema =
     (let current_names = map name current_schema
      in append_missing current_names BIGQUERY_TABLE_SCHEMA current_schema)"

section \<open>Notions used in the statements\<close>

text \<open>
  \<open>days_back k d\<close> is the date \<open>k\<close> days before \<open>d\<close>, reached as the pruning loop
  reaches it, one day at a time; \<open>back_keys n d\<close> lists the document ids of the \<open>n\<close>
  days \<open>d\<close>, \<open>d - 1\<close>, ... in the order in which the loop visits them.
\<close>

fun days_back :: "nat \<Rightarrow> date \<Rightarrow> error + date" where
  "days_back 0 d = Inr d"
| "days_back (Suc k) d =
     (case date_sub_day d of Inl e \<Rightarrow> Inl e | Inr d' \<Rightarrow> days_back k d')"

fun back_keys :: "nat \<Rightarrow> date \<Rightarrow> string list" where
  "back_keys 0 d = []"
| "back_keys (Suc k) d =
     date_isoformat d # (case date_sub_day d of Inl e \<Rightarrow> [] | Inr d' \<Rightarrow> back_keys k d')"

text \<open>Reading a zero-padded decimal back: the inverse of \<open>zpad\<close>, used to tell ids apart.\<close>

definition digit_val :: "char \<Rightarrow> nat" where
  "digit_val c = length (takeWhile (\<lambda>x. x \<noteq> c) ''0123456789'')"

definition undec :: "string \<Rightarrow> nat" where
  "undec s = foldl (\<lambda>a c. 10 * a + digit_val c) 0 s"

text \<open>
  \<open>run_from c d n\<close>: the collection \<open>c\<close> holds a document for each of the \<open>n\<close> days
  \<open>d\<close>, \<open>d - 1\<close>, ..., and none for the day before them (the gap).
\<close>

definition run_from :: "(string \<rightharpoonup> 'a) \<Rightarrow> date \<Rightarrow> nat \<Rightarrow> bool" where
  "run_from c d n =
     ((\<forall>k \<in> set (back_keys n d). c k \<noteq> None)
      \<and> (case days_back n d of Inl e \<Rightarrow> False | Inr g \<Rightarrow> c (date_isoformat g) = None))"

text \<open>
  \<open>only_date_ids c\<close>: every document id of the collection \<open>c\<close> is the ISO format of
  a date, the ids under which the snapshotters write.
\<close>

definition only_date_ids :: "(string \<rightharpoonup> 'a) \<Rightarrow> bool" where
  "only_date_ids c = (\<forall>k \<in> dom c. \<exists>d. k = date_isoformat d)"

text \<open>
  \<open>published_by w w'\<close> are the messages that a run from the state \<open>w\<close> to the state
  \<open>w'\<close> has published. \<open>wire_format d\<close>: the dict \<open>d\<close> has exactly one key, and it is
  \<^verbatim>\<open>new\<close> or \<^verbatim>\<open>remove\<close>. \<open>has_keys doc\<close>: the schema document, if there is one, has
  the field \<^verbatim>\<open>keys\<close>.
\<close>

definition published_by :: "world \<Rightarrow> world \<Rightarrow> (string \<times> payload) list" where
  "published_by w w' = drop (length (published w)) (published w')"

definition wire_format :: "payload \<Rightarrow> bool" where
  "wire_format d = (case d of [(k, ks)] \<Rightarrow> k = ''new'' \<or> k = ''remove'' | _ \<Rightarrow> False)"

definition has_keys :: "(string \<times> string list) list option \<Rightarrow> bool" where
  "has_keys doc = (case doc of None \<Rightarrow> True | Some d \<Rightarrow> map_of d ''keys'' \<noteq> None)"

text \<open>
  What the specification asks of a diff, in its words: one message per non-empty set,
  each carrying the single key \<^verbatim>\<open>remove\<close> or \<^verbatim>\<open>new\<close> mapped to the identifiers.
\<close>

definition diff_messages :: "string \<Rightarrow> string list \<Rightarrow> string list \<Rightarrow> (string \<times> payload) list" where
  "diff_messages topic prev_keys current_keys =
     (let removed = set_difference prev_keys current_keys;
          added = set_difference current_keys prev_keys
      in (if removed \<noteq> [] then [(topic, [(''remove'', removed)])] else [])
         @ (if added \<noteq> [] then [(topic, [(''new'', added)])] else []))"

section \<open>Example states\<close>

definition example_doc :: "(string \<times> jv) list" where
  "example_doc = [(''bbc'', JObj [(''id'', JStr ''bbc'')])]"

text \<open>
  A state for the pruners on 2020-03-15: the sources have a gap at 2020-03-12 and an
  older snapshot behind it, the source schemas have a gap at 2020-03-11, and the article
  schemas have nothing older than the day before.
\<close>

definition pruning_time :: datetime where
  "pruning_time = \<lparr>dt_date = \<lparr>year = 2020, month = 3, day = 15\<rparr>, hour = 0, minute = 0,
     second = 0, microsecond = 0, utcoffset = Some 0\<rparr>"

definition pruning_world :: world where
  "pruning_world =
     \<lparr>sources = [''2020-03-15'' \<mapsto> example_doc, ''2020-03-14'' \<mapsto> example_doc,
                 ''2020-03-13'' \<mapsto> example_doc, ''2020-03-11'' \<mapsto> example_doc],
      sources_schema = [''2020-03-15'' \<mapsto> [(''keys'', [''id''])],
                        ''2020-03-14'' \<mapsto> [(''keys'', [''id''])],
                        ''2020-03-13'' \<mapsto> [(''keys'', [''id''])],
                        ''2020-03-12'' \<mapsto> [(''keys'', [''id''])]],
      article_schema = [''2020-03-15'' \<mapsto> [(''keys'', [''url''])],
                        ''2020-03-14'' \<mapsto> [(''keys'', [''url''])]],
      articles = Map.empty, topics = [], published = [], warnings = []\<rparr>"

text \<open>
  Two consecutive daily runs, at midnight UTC of 2020-03-14 and of 2020-03-15, with the
  timestamps as the scheduler hands them to the tasks; two sources and a headline as the
  content API returns them; and the state before the first run.
\<close>

definition first_run :: datetime where
  "first_run = \<lparr>dt_date = \<lparr>year = 2020, month = 3, day = 14\<rparr>, hour = 0, minute = 0,
     second = 0, microsecond = 0, utcoffset = Some 0\<rparr>"

definition second_run :: datetime where
  "second_run = \<lparr>dt_date = \<lparr>year = 2020, month = 3, day = 15\<rparr>, hour = 0, minute = 0,
     second = 0, microsecond = 0, utcoffset = Some 0\<rparr>"

definition bbc :: "(string \<times> jv) list" where
  "bbc = [(''id'', JStr ''bbc''), (''name'', JStr ''BBC News'')]"

definition cnn :: "(string \<times> jv) list" where
  "cnn = [(''id'', JStr ''cnn''), (''name'', JStr ''CNN'')]"

definition headline :: "(string \<times> jv) list" where
  "headline = [(''url'', JStr ''https://example.org/a''), (''title'', JStr ''A'')]"

definition empty_world :: world where
  "empty_world = \<lparr>sources = Map.empty, sources_schema = Map.empty, article_schema = Map.empty,
     articles = Map.empty, topics = [], published = [], warnings = []\<rparr>"

text \<open>The sources after the snapshotter has run on both days: BBC on the first, CNN on the second.\<close>

definition two_snapshots_world :: world where
  "two_snapshots_world =
     empty_world\<lparr>sources := [''2020-03-14'' \<mapsto> [(''bbc'', JObj bbc)],
                              ''2020-03-15'' \<mapsto> [(''cnn'', JObj cnn)]]\<rparr>"

text \<open>The sources after the snapshotter has run on the first day only.\<close>

definition yesterday_only_world :: world where
  "yesterday_only_world = empty_world\<lparr>sources := [''2020-03-14'' \<mapsto> [(''bbc'', JObj bbc)]]\<rparr>"

text \<open>Snapshots of 2020-03-15 that are already there when the snapshotters run again.\<close>

definition snapshots_taken_world :: world where
  "snapshots_taken_world =
     empty_world\<lparr>sources := [''2020-03-15'' \<mapsto> [(''bbc'', JObj bbc)]],
                  sources_schema := [''2020-03-15'' \<mapsto> [(''keys'', [''id''])]],
                  article_schema := [''2020-03-15'' \<mapsto> [(''keys'', [''url''])]]\<rparr>"

text \<open>
  A state in which the previous day's documents sit under the id the notifiers read, the
  ISO format of the previous timestamp: sources BBC and CNN before, CNN and Reuters
  today; source fields \<open>id\<close>, \<open>name\<close> before and \<open>id\<close>, \<open>url\<close> today; no previous
  article schema.
\<close>

definition reuters :: "(string \<times> jv) list" where
  "reuters = [(''id'', JStr ''reuters''), (''name'', JStr ''Reuters'')]"

definition timestamp_keyed_world :: world where
  "timestamp_keyed_world =
     empty_world\<lparr>sources := [''2020-03-14T00:00:00+00:00'' \<mapsto> [(''bbc'', JObj bbc), (''cnn'', JObj cnn)],
                              ''2020-03-15'' \<mapsto> [(''cnn'', JObj cnn), (''reuters'', JObj reuters)]],
                  sources_schema := [''2020-03-14T00:00:00+00:00'' \<mapsto> [(''keys'', [''id'', ''name''])],
                                     ''2020-03-15'' \<mapsto> [(''keys'', [''id'', ''url''])]],
                  article_schema := [''2020-03-15'' \<mapsto> [(''keys'', [''url''])]]\<rparr>"

text \<open>
  A declared table schema with a nested field, and a stand-in for the hash of a url.
\<close>

definition declared_example :: "(string \<times> field_decl) list" where
  "declared_example =
     [(''id'', FieldDecl (Some ''STRING'') []),
      (''source'', FieldDecl (Some ''RECORD'') [(''name'', FieldDecl (Some ''STRING'') [])])]"


section \<open>Dates and document ids\<close>

text \<open>The equations that evaluate an ISO format on a given date or timestamp.\<close>

lemmas iso_eval =
  date_isoformat_def datetime_isoformat_def format_offset_def zpad_def dec.simps digit_def

lemma digit_mem: "digit n \<in> set ''0123456789''"
  unfolding digit_def by (rule nth_mem) simp

lemma set_dec: "set (dec n) \<subseteq> set ''0123456789''"
proof (induction n rule: dec.induct)
  case (1 n)
  show ?case
  proof (cases "n < 10")
    case True
    then show ?thesis using digit_mem [of n] by (subst dec.simps) simp
  next
    case False
    then show ?thesis using 1 digit_mem [of n] by (subst dec.simps) simp
  qed
qed

lemma set_zpad: "set (zpad w n) \<subseteq> set ''0123456789''"
  using set_dec [of n] by (auto simp: zpad_def)

lemma T_notin_zpad: "CHR ''T'' \<notin> set (zpad w n)"
  using set_zpad [of w n] by auto

lemma T_notin_date_isoformat: "CHR ''T'' \<notin> set (date_isoformat d)"
  by (simp add: date_isoformat_def T_notin_zpad)

lemma T_in_datetime_isoformat: "CHR ''T'' \<in> set (datetime_isoformat t)"
  by (simp add: datetime_isoformat_def)

lemma datetime_key_not_date_key: "datetime_isoformat t \<noteq> date_isoformat d"
  using T_notin_date_isoformat [of d] T_in_datetime_isoformat [of t] by metis


lemma lt10: "(k::nat) < 10 \<Longrightarrow> k \<in> {0, 1, 2, 3, 4, 5, 6, 7, 8, 9}"
  by (simp add: eval_nat_numeral less_Suc_eq) 

lemma digit_val_nth: "k < 10 \<Longrightarrow> digit_val (''0123456789'' ! k) = k"
  by (drule lt10) (auto simp: digit_val_def)

lemma digit_val_digit: "digit_val (digit n) = n mod 10"
  unfolding digit_def by (rule digit_val_nth) simp

lemma undec_snoc: "undec (s @ [c]) = 10 * undec s + digit_val c"
  by (simp add: undec_def)

lemma undec_dec: "undec (dec n) = n"
proof (induction n rule: dec.induct)
  case (1 n)
  show ?case
  proof (cases "n < 10")
    case True
    then show ?thesis by (subst dec.simps) (simp add: undec_def digit_val_digit)
  next
    case False
    then have "undec (dec n) = 10 * undec (dec (n div 10)) + digit_val (digit n)"
      by (subst dec.simps) (simp add: undec_snoc)
    with False 1 show ?thesis by (simp add: digit_val_digit)
  qed
qed

lemma undec_zeros: "undec (replicate k (CHR ''0'') @ s) = undec s"
proof -
  have "foldl (\<lambda>a c. 10 * a + digit_val c) 0 (replicate k (CHR ''0'')) = 0"
    by (induction k) (simp_all add: digit_val_def)
  then show ?thesis by (simp add: undec_def)
qed

lemma undec_zpad: "undec (zpad w n) = n"
  by (simp add: zpad_def undec_zeros undec_dec)

lemma zpad_inject: "zpad w n = zpad w m \<Longrightarrow> n = m"
  using undec_zpad by metis

lemma length_dec: "n < 10 ^ k \<Longrightarrow> 0 < k \<Longrightarrow> length (dec n) \<le> k"
proof (induction n arbitrary: k rule: dec.induct)
  case (1 n)
  show ?case
  proof (cases "n < 10")
    case True
    then show ?thesis using 1(3) by (subst dec.simps) simp
  next
    case False
    obtain j where k: "k = Suc j" using 1(3) by (cases k) auto
    from False 1(2) k have "0 < j" by (cases j) auto
    moreover from 1(2) k have "n div 10 < 10 ^ j" by (simp add: less_mult_imp_div_less mult.commute)
    ultimately have "length (dec (n div 10)) \<le> j" using 1(1) False by simp
    with False k show ?thesis by (subst dec.simps) simp
  qed
qed

lemma length_zpad: "n < 10 ^ w \<Longrightarrow> 0 < w \<Longrightarrow> length (zpad w n) = w"
  using length_dec [of n w] by (simp add: zpad_def)

lemma date_isoformat_inject:
  assumes "valid_date a" "valid_date b" "date_isoformat a = date_isoformat b"
  shows "a = b"
proof -
  have la: "length (zpad 4 (year a)) = 4" "length (zpad 2 (month a)) = 2"
    using assms(1) by (auto simp: valid_date_def intro!: length_zpad)
  have lb: "length (zpad 4 (year b)) = 4" "length (zpad 2 (month b)) = 2"
    using assms(2) by (auto simp: valid_date_def intro!: length_zpad)
  from assms(3) la lb have "zpad 4 (year a) = zpad 4 (year b) \<and> zpad 2 (month a) = zpad 2 (month b)
      \<and> zpad 2 (day a) = zpad 2 (day b)"
    by (simp add: date_isoformat_def)
  then have "year a = year b" "month a = month b" "day a = day b"
    by (auto dest: zpad_inject)
  then show ?thesis by simp
qed

lemma days_in_month_pos: "1 \<le> days_in_month y m"
  by (simp add: days_in_month_def)

lemma date_sub_day_valid:
  assumes "valid_date d" "date_sub_day d = Inr d'"
  shows "valid_date d'"
proof -
  consider (day) "1 < day d" | (month) "\<not> 1 < day d" "1 < month d"
    | (year) "\<not> 1 < day d" "\<not> 1 < month d" "1 < year d"
    | (none) "\<not> 1 < day d" "\<not> 1 < month d" "\<not> 1 < year d"
    by blast
  then show ?thesis
  proof cases
    case day
    with assms(2) have "d' = d\<lparr>day := day d - 1\<rparr>" by (simp add: date_sub_day_def)
    with assms(1) day show ?thesis by (auto simp: valid_date_def)
  next
    case month
    with assms(2) have "d' = \<lparr>year = year d, month = month d - 1,
        day = days_in_month (year d) (month d - 1)\<rparr>"
      by (simp add: date_sub_day_def)
    with assms(1) month days_in_month_pos [of "year d" "month d - 1"] show ?thesis
      by (auto simp: valid_date_def)
  next
    case year
    with assms(2) have "d' = \<lparr>year = year d - 1, month = 12, day = 31\<rparr>"
      by (simp add: date_sub_day_def)
    with assms(1) year show ?thesis by (auto simp: valid_date_def days_in_month_def)
  next
    case none
    with assms(2) show ?thesis by (simp add: date_sub_day_def)
  qed
qed

lemma date_sub_day_rank: "date_sub_day d = Inr d' \<Longrightarrow> date_rank d' < date_rank d"
  by (auto simp: date_sub_day_def date_rank_def days_in_month_def split: if_splits)


lemma days_back_valid: "valid_date d \<Longrightarrow> days_back k d = Inr x \<Longrightarrow> valid_date x"
proof (induction k arbitrary: d)
  case 0
  then show ?case by simp
next
  case (Suc k)
  from Suc.prems(2) obtain d' where d': "date_sub_day d = Inr d'" "days_back k d' = Inr x"
    by (auto split: sum.splits)
  from Suc.prems(1) d'(1) have "valid_date d'" by (rule date_sub_day_valid)
  then show ?case using d'(2) by (rule Suc.IH)
qed

lemma days_back_rank: "days_back k d = Inr x \<Longrightarrow> date_rank x + k \<le> date_rank d"
proof (induction k arbitrary: d)
  case 0
  then show ?case by simp
next
  case (Suc k)
  from Suc.prems obtain d' where d': "date_sub_day d = Inr d'" "days_back k d' = Inr x"
    by (auto split: sum.splits)
  from d'(2) have "date_rank x + k \<le> date_rank d'" by (rule Suc.IH)
  moreover from d'(1) have "date_rank d' < date_rank d" by (rule date_sub_day_rank)
  ultimately show ?case by simp
qed

lemma date_isoformat_neq:
  assumes "valid_date a" "valid_date b" "date_rank a < date_rank b"
  shows "date_isoformat b \<noteq> date_isoformat a"
proof
  assume "date_isoformat b = date_isoformat a"
  with assms(1,2) have "b = a" by (simp add: date_isoformat_inject)
  with assms(3) show False by simp
qed

lemma back_keys_later:
  "valid_date d \<Longrightarrow> valid_date x \<Longrightarrow> date_rank d < date_rank x \<Longrightarrow> date_isoformat x \<notin> set (back_keys n d)"
proof (induction n arbitrary: d)
  case 0
  then show ?case by simp
next
  case (Suc n)
  have 1: "date_isoformat x \<noteq> date_isoformat d"
    using Suc.prems by (rule date_isoformat_neq)
  have 2: "date_isoformat x \<notin> set (back_keys n d')" if d': "date_sub_day d = Inr d'" for d'
  proof (rule Suc.IH)
    show "valid_date d'" using Suc.prems(1) d' by (rule date_sub_day_valid)
    show "valid_date x" by (rule Suc.prems(2))
    show "date_rank d' < date_rank x" using date_sub_day_rank [OF d'] Suc.prems(3) by simp
  qed
  show ?case
  proof (cases "date_sub_day d")
    case (Inl e)
    then show ?thesis using 1 by simp
  next
    case (Inr d')
    then show ?thesis using 1 2 [OF Inr] by simp
  qed
qed

lemma back_keys_earlier:
  "valid_date d \<Longrightarrow> days_back m d = Inr x \<Longrightarrow> n \<le> m \<Longrightarrow> date_isoformat x \<notin> set (back_keys n d)"
proof (induction n arbitrary: d m)
  case 0
  then show ?case by simp
next
  case (Suc n)
  then obtain m' where m: "m = Suc m'" by (cases m) auto
  with Suc.prems(2) obtain d' where d': "date_sub_day d = Inr d'" "days_back m' d' = Inr x"
    by (auto split: sum.splits)
  have "date_rank x < date_rank d"
    using days_back_rank [OF Suc.prems(2)] m by simp
  moreover have "valid_date x" using Suc.prems(1,2) by (rule days_back_valid)
  ultimately have 1: "date_isoformat d \<noteq> date_isoformat x"
    using Suc.prems(1) by (simp add: date_isoformat_neq)
  have "valid_date d'" using Suc.prems(1) d'(1) by (rule date_sub_day_valid)
  moreover have "n \<le> m'" using Suc.prems(3) m by simp
  ultimately have "date_isoformat x \<notin> set (back_keys n d')"
    using d'(2) Suc.IH by blast
  then show ?case using d'(1) 1 by auto
qed

lemma clear_old_run:
  assumes "valid_date d" "days_back n d = Inr g" "c (date_isoformat g) = None"
    and "\<forall>k \<in> set (back_keys n d). c k \<noteq> None"
  shows "clear_old c d = (c |` (- set (back_keys n d)), None)"
  using assms
proof (induction n arbitrary: c d)
  case 0
  then show ?case by (subst clear_old.simps) (simp add: restrict_map_def)
next
  case (Suc n)
  from Suc.prems(2) obtain d' where d': "date_sub_day d = Inr d'" "days_back n d' = Inr g"
    by (auto split: sum.splits)
  let ?c = "c(date_isoformat d := None)"
  have v: "valid_date d'" using Suc.prems(1) d'(1) by (rule date_sub_day_valid)
  have notin: "date_isoformat d \<notin> set (back_keys n d')"
    using back_keys_later [OF v Suc.prems(1)] date_sub_day_rank [OF d'(1)] by simp
  have "clear_old ?c d' = (?c |` (- set (back_keys n d')), None)"
  proof (rule Suc.IH [OF v d'(2)])
    show "?c (date_isoformat g) = None" using Suc.prems(3) by simp
    show "\<forall>k\<in>set (back_keys n d'). ?c k \<noteq> None"
      using Suc.prems(4) d'(1) notin by auto
  qed
  moreover have "?c |` (- set (back_keys n d')) = c |` (- set (back_keys (Suc n) d))"
    using d'(1) by (auto simp: restrict_map_def fun_eq_iff)
  moreover have "c (date_isoformat d) \<noteq> None" using Suc.prems(4) by simp
  ultimately show ?case using d'(1) by (subst clear_old.simps) simp
qed

section \<open>The key of the previous day's snapshot\<close>

text \<open>
  In a collection whose document ids are all dates, as the snapshotters write them, a
  read under the ISO format of a timestamp finds no document.
\<close>

lemma only_date_ids_prev_read_misses:
  assumes "\<forall>k \<in> dom c. \<exists>d. k = date_isoformat d"
  shows "c (datetime_isoformat p) = None"
proof (rule ccontr)
  assume "c (datetime_isoformat p) \<noteq> None"
  then have "datetime_isoformat p \<in> dom c" by auto
  with assms obtain d where "datetime_isoformat p = date_isoformat d" by blast
  then show False by (simp add: datetime_key_not_date_key)
qed

text \<open>
  C3. Both diff notifiers read the previous day's document under
  \<^verbatim>\<open>self.prev_execution_date.isoformat()\<close>, the ISO format of a whole timestamp, which
  has a time component after the separator \<^verbatim>\<open>T\<close>. Both snapshotters write under
  \<^verbatim>\<open>self.execution_date.date().isoformat()\<close>, a date and nothing more. The two strings
  differ for every pair of timestamps, so in particular for the same day; and a run of
  either snapshotter, at any execution timestamp, leaves the document under every
  timestamp-format id as it was: the notifiers' read of the previous day uses an id that
  no snapshotter writes. So in a collection that holds only documents under date ids
  that read finds nothing, and the sources notifier returns at its first test, whatever
  snapshots there are.
\<close>

theorem prev_day_key_never_written:
  "datetime_isoformat prev_execution_date \<noteq> date_isoformat (dt_date execution_date)
   \<and> sources (fst (GetNewsSources_body fetched execution_date p w))
         (datetime_isoformat prev_execution_date)
       = sources w (datetime_isoformat prev_execution_date)
   \<and> sources_schema (fst (GetDataSchemas_body fetched headlines execution_date p w))
         (datetime_isoformat prev_execution_date)
       = sources_schema w (datetime_isoformat prev_execution_date)
   \<and> article_schema (fst (GetDataSchemas_body fetched headlines execution_date p w))
         (datetime_isoformat prev_execution_date)
       = article_schema w (datetime_isoformat prev_execution_date)
   \<and> ((\<forall>k \<in> dom (sources w). \<exists>d. k = date_isoformat d) \<longrightarrow>
        sources w (datetime_isoformat prev_execution_date) = None
        \<and> CheckAndPublishNewsSources_body project execution_date prev_execution_date w
          = (check_pubsub_topic w (topic_path project COLLECTION_SOURCES_KEY), None))
   \<and> ((\<forall>k \<in> dom (sources_schema w). \<exists>d. k = date_isoformat d) \<longrightarrow>
        sources_schema w (datetime_isoformat prev_execution_date) = None)
   \<and> ((\<forall>k \<in> dom (article_schema w). \<exists>d. k = date_isoformat d) \<longrightarrow>
        article_schema w (datetime_isoformat prev_execution_date) = None)"
proof -
  have ne: "datetime_isoformat prev_execution_date \<noteq> date_isoformat (dt_date execution_date)"
    by (rule datetime_key_not_date_key)
  have 1: "sources (fst (GetNewsSources_body fetched execution_date p w))
      (datetime_isoformat prev_execution_date) = sources w (datetime_isoformat prev_execution_date)"
    using ne by (simp add: GetNewsSources_body_def Let_def split: sum.splits)
  have 2: "sources_schema (fst (GetDataSchemas_body fetched headlines execution_date p w))
      (datetime_isoformat prev_execution_date)
      = sources_schema w (datetime_isoformat prev_execution_date)"
    using ne by (simp add: GetDataSchemas_body_def Let_def split: sum.splits)
  have 3: "article_schema (fst (GetDataSchemas_body fetched headlines execution_date p w))
      (datetime_isoformat prev_execution_date)
      = article_schema w (datetime_isoformat prev_execution_date)"
    using ne by (simp add: GetDataSchemas_body_def Let_def split: sum.splits)
  have 4: "sources w (datetime_isoformat prev_execution_date) = None
      \<and> CheckAndPublishNewsSources_body project execution_date prev_execution_date w
        = (check_pubsub_topic w (topic_path project COLLECTION_SOURCES_KEY), None)"
    if "\<forall>k \<in> dom (sources w). \<exists>d. k = date_isoformat d"
  proof -
    from that have "sources w (datetime_isoformat prev_execution_date) = None"
      by (rule only_date_ids_prev_read_misses)
    then show ?thesis
      by (simp add: CheckAndPublishNewsSources_body_def Let_def check_pubsub_topic_def)
  qed
  have 5: "sources_schema w (datetime_isoformat prev_execution_date) = None"
    if "\<forall>k \<in> dom (sources_schema w). \<exists>d. k = date_isoformat d"
    using that by (rule only_date_ids_prev_read_misses)
  have 6: "article_schema w (datetime_isoformat prev_execution_date) = None"
    if "\<forall>k \<in> dom (article_schema w). \<exists>d. k = date_isoformat d"
    using that by (rule only_date_ids_prev_read_misses)
  from ne 1 2 3 4 5 6 show ?thesis by blast
qed

theorem prev_day_key_never_written_witness:
  "sources two_snapshots_world ''2020-03-14'' \<noteq> None
   \<and> sources two_snapshots_world ''2020-03-14T00:00:00+00:00'' = None
   \<and> CheckAndPublishNewsSources_body ''news'' second_run first_run two_snapshots_world
     = (two_snapshots_world\<lparr>topics := [''projects/news/topics/sources'']\<rparr>, None)"
proof -
  have a: "''2020-03-14'' = date_isoformat \<lparr>year = 2020, month = 3, day = 14\<rparr>"
    by (simp add: iso_eval)
  have b: "''2020-03-15'' = date_isoformat \<lparr>year = 2020, month = 3, day = 15\<rparr>"
    by (simp add: iso_eval)
  have ids: "\<forall>k \<in> dom (sources two_snapshots_world). \<exists>d. k = date_isoformat d"
    using a b by (auto simp: two_snapshots_world_def empty_world_def)
  have k: "datetime_isoformat first_run = ''2020-03-14T00:00:00+00:00''"
    by (simp add: iso_eval first_run_def)
  from prev_day_key_never_written [where w = two_snapshots_world
      and prev_execution_date = first_run and execution_date = second_run and project = "''news''"]
    ids have "sources two_snapshots_world (datetime_isoformat first_run) = None
      \<and> CheckAndPublishNewsSources_body ''news'' second_run first_run two_snapshots_world
        = (check_pubsub_topic two_snapshots_world (topic_path ''news'' COLLECTION_SOURCES_KEY), None)"
    by blast
  then show ?thesis unfolding k
    by (simp add: two_snapshots_world_def empty_world_def check_pubsub_topic_def topic_path_def
        COLLECTION_SOURCES_KEY_def)
qed

section \<open>Retention pruning\<close>

lemma days_back_add:
  "days_back (j + k) d = (case days_back j d of Inl e \<Rightarrow> Inl e | Inr x \<Rightarrow> days_back k x)"
  by (induction j arbitrary: d) (simp_all split: sum.splits)

lemma clear_old_run_from:
  assumes "valid_date d" "run_from c d n"
  shows "clear_old c d = (c |` (- set (back_keys n d)), None)"
proof -
  from assms(2) obtain g where "days_back n d = Inr g" "c (date_isoformat g) = None"
    by (auto simp: run_from_def split: sum.splits)
  moreover from assms(2) have "\<forall>k \<in> set (back_keys n d). c k \<noteq> None"
    by (simp add: run_from_def)
  ultimately show ?thesis using assms(1) by (simp add: clear_old_run)
qed

lemma two_days_back:
  assumes "days_back 2 d = Inr d2"
  shows "\<exists>d1. date_sub_day d = Inr d1 \<and> date_sub_day d1 = Inr d2"
  using assms by (auto simp: numeral_2_eq_2 split: sum.splits)

text \<open>
  C6. Let \<open>D\<close> be the date of the execution timestamp and \<open>d2\<close> the date two days before
  it. If a collection holds a contiguous run of \<open>n\<close> snapshots from \<open>d2\<close> backwards and
  none for the day before that run, the pruner returns normally having deleted exactly
  the snapshots of that run: every other document of the collection is as it was. None
  of the deleted ids is the id of \<open>D\<close> or of \<open>D - 1\<close>, and none is the id of the gap
  or of a day older than the gap, however long the run: the snapshots of \<open>D\<close> and
  \<open>D - 1\<close> and everything behind the gap stay. \<^verbatim>\<open>ClearOldSourceData\<close> does this on the
  sources, \<^verbatim>\<open>ClearOldSchemas\<close> on the source schemas and on the article schemas, each
  with its own run.
\<close>

theorem retention_pruner_run:
  assumes v: "valid_date (dt_date execution_date)"
    and d2: "days_back 2 (dt_date execution_date) = Inr d2"
    and r: "run_from (sources w) d2 n"
    and r1: "run_from (sources_schema w) d2 n1"
    and r2: "run_from (article_schema w) d2 n2"
  shows "execute ClearOldSourceData_body execution_date w
           = (w\<lparr>sources := sources w |` (- set (back_keys n d2))\<rparr>, None)
     \<and> execute ClearOldSchemas_body execution_date w
           = (w\<lparr>sources_schema := sources_schema w |` (- set (back_keys n1 d2)),
                article_schema := article_schema w |` (- set (back_keys n2 d2))\<rparr>, None)
     \<and> (\<forall>m. date_isoformat (dt_date execution_date) \<notin> set (back_keys m d2))
     \<and> (\<forall>m d1. days_back 1 (dt_date execution_date) = Inr d1
            \<longrightarrow> date_isoformat d1 \<notin> set (back_keys m d2))
     \<and> (\<forall>m j x. m + 2 \<le> j \<longrightarrow> days_back j (dt_date execution_date) = Inr x
            \<longrightarrow> date_isoformat x \<notin> set (back_keys m d2))"
proof -
  let ?D = "dt_date execution_date"
  from two_days_back [OF d2] obtain d1 where
    d1: "date_sub_day ?D = Inr d1" "date_sub_day d1 = Inr d2" by blast
  have v1: "valid_date d1" using v d1(1) by (rule date_sub_day_valid)
  have v2: "valid_date d2" using v1 d1(2) by (rule date_sub_day_valid)
  have pe: "datetime_sub_day execution_date = Inr (execution_date\<lparr>dt_date := d1\<rparr>)"
    using d1(1) by (simp add: datetime_sub_day_def)
  have A: "execute ClearOldSourceData_body execution_date w
      = (w\<lparr>sources := sources w |` (- set (back_keys n d2))\<rparr>, None)"
    using pe d1(2) clear_old_run_from [OF v2 r]
    by (simp add: execute_def ClearOldSourceData_body_def)
  have B: "execute ClearOldSchemas_body execution_date w
      = (w\<lparr>sources_schema := sources_schema w |` (- set (back_keys n1 d2)),
           article_schema := article_schema w |` (- set (back_keys n2 d2))\<rparr>, None)"
    using pe d1(2) clear_old_run_from [OF v2 r1] clear_old_run_from [OF v2 r2]
    by (simp add: execute_def ClearOldSchemas_body_def)
  have r12: "date_rank d2 < date_rank d1" using d1(2) by (rule date_sub_day_rank)
  have r01: "date_rank d1 < date_rank ?D" using d1(1) by (rule date_sub_day_rank)
  have C: "date_isoformat ?D \<notin> set (back_keys m d2)" for m
    using v2 v r12 r01 by (intro back_keys_later) simp_all
  have D: "date_isoformat d1' \<notin> set (back_keys m d2)" if "days_back 1 ?D = Inr d1'" for m d1'
  proof -
    from that d1(1) have "d1' = d1" by simp
    then show ?thesis using v2 v1 r12 by (simp add: back_keys_later)
  qed
  have E: "date_isoformat x \<notin> set (back_keys m d2)"
    if "m + 2 \<le> j" "days_back j ?D = Inr x" for m j x
  proof -
    define k where "k = j - 2"
    from that(1) have j: "j = 2 + k" and mk: "m \<le> k" by (simp_all add: k_def)
    from that(2) have "days_back (2 + k) ?D = Inr x" by (simp only: j)
    then have "days_back k d2 = Inr x" by (simp only: days_back_add d2 sum.case)
    with v2 show ?thesis using mk by (rule back_keys_earlier)
  qed
  from A B C D E show ?thesis by blast
qed

theorem retention_pruner_run_witness:
  "(case execute ClearOldSourceData_body pruning_time pruning_world of
      (w', r) \<Rightarrow> r = None
        \<and> sources w' ''2020-03-15'' = Some example_doc
        \<and> sources w' ''2020-03-14'' = Some example_doc
        \<and> sources w' ''2020-03-13'' = None
        \<and> sources w' ''2020-03-12'' = None
        \<and> sources w' ''2020-03-11'' = Some example_doc)
   \<and> (case execute ClearOldSchemas_body pruning_time pruning_world of
      (w', r) \<Rightarrow> r = None
        \<and> sources_schema w' ''2020-03-15'' = Some [(''keys'', [''id''])]
        \<and> sources_schema w' ''2020-03-14'' = Some [(''keys'', [''id''])]
        \<and> sources_schema w' ''2020-03-13'' = None
        \<and> sources_schema w' ''2020-03-12'' = None
        \<and> article_schema w' ''2020-03-15'' = Some [(''keys'', [''url''])]
        \<and> article_schema w' ''2020-03-14'' = Some [(''keys'', [''url''])])"
proof -
  let ?d2 = "\<lparr>year = 2020, month = 3, day = 13\<rparr>"
  have v: "valid_date (dt_date pruning_time)"
    by (simp add: pruning_time_def valid_date_def days_in_month_def)
  have d2: "days_back 2 (dt_date pruning_time) = Inr ?d2"
    by (simp add: pruning_time_def numeral_2_eq_2 date_sub_day_def)
  have k0: "back_keys 0 ?d2 = []" by simp
  have k1: "back_keys 1 ?d2 = [''2020-03-13'']"
    by (simp add: date_sub_day_def iso_eval)
  have k2: "back_keys 2 ?d2 = [''2020-03-13'', ''2020-03-12'']"
    by (simp add: numeral_2_eq_2 date_sub_day_def iso_eval)
  have g0: "days_back 0 ?d2 = Inr ?d2" by simp
  have g1: "days_back 1 ?d2 = Inr \<lparr>year = 2020, month = 3, day = 12\<rparr>"
    by (simp add: date_sub_day_def)
  have g2: "days_back 2 ?d2 = Inr \<lparr>year = 2020, month = 3, day = 11\<rparr>"
    by (simp add: numeral_2_eq_2 date_sub_day_def)
  have i3: "date_isoformat ?d2 = ''2020-03-13''" by (simp add: iso_eval)
  have i2: "date_isoformat \<lparr>year = 2020, month = 3, day = 12\<rparr> = ''2020-03-12''"
    by (simp add: iso_eval)
  have i1: "date_isoformat \<lparr>year = 2020, month = 3, day = 11\<rparr> = ''2020-03-11''"
    by (simp add: iso_eval)
  have r: "run_from (sources pruning_world) ?d2 1"
    unfolding run_from_def k1 g1 by (simp add: pruning_world_def i2)
  have r1: "run_from (sources_schema pruning_world) ?d2 2"
    unfolding run_from_def k2 g2 by (simp add: pruning_world_def i1)
  have r2: "run_from (article_schema pruning_world) ?d2 0"
    unfolding run_from_def k0 g0 by (simp add: pruning_world_def i3)
  note run = retention_pruner_run [OF v d2 r r1 r2, unfolded k0 k1 k2]
  have A: "execute ClearOldSourceData_body pruning_time pruning_world
      = (pruning_world\<lparr>sources := sources pruning_world |` (- set [''2020-03-13''])\<rparr>, None)"
    by (rule run [THEN conjunct1])
  have B: "execute ClearOldSchemas_body pruning_time pruning_world
      = (pruning_world\<lparr>sources_schema :=
             sources_schema pruning_world |` (- set [''2020-03-13'', ''2020-03-12'']),
           article_schema := article_schema pruning_world |` (- set [])\<rparr>, None)"
    by (rule run [THEN conjunct2, THEN conjunct1])
  show ?thesis unfolding A B by (simp add: restrict_map_def pruning_world_def)
qed

section \<open>The sources diff notifier on stored snapshots\<close>

lemmas run_eval =
  execute_def datetime_sub_day_def date_sub_day_def subscript_def keys_def Let_def
  check_pubsub_topic_def publish_def topic_path_def COLLECTION_SOURCES_KEY_def
  SOURCES_SCHEMA_SOURCES_KEY_def ARTICLES_SCHEMA_SOURCES_KEY_def

text \<open>
  C1 (the code departs from the claim). The sources snapshotter runs on 2020-03-14 with
  the source BBC and on 2020-03-15 with the source CNN: the snapshots of both days
  exist, with the disjoint key sets \<open>{bbc}\<close> and \<open>{cnn}\<close>. The claim asks for the two
  messages \<^verbatim>\<open>{remove: [bbc]}\<close> and \<^verbatim>\<open>{new: [cnn]}\<close>. The notifier of 2020-03-15
  looks for the previous snapshot under \<^verbatim>\<open>2020-03-14T00:00:00+00:00\<close>, the ISO format
  of the whole previous timestamp, where today's id and the pruner's ids are taken from
  the date; it finds nothing and returns having published no message.
\<close>

theorem sources_notifier_silent_on_snapshots:
  "execute (GetNewsSources_body [cnn]) second_run
       (fst (execute (GetNewsSources_body [bbc]) first_run empty_world))
     = (two_snapshots_world, None)
   \<and> sources two_snapshots_world ''2020-03-14'' = Some [(''bbc'', JObj bbc)]
   \<and> sources two_snapshots_world ''2020-03-15'' = Some [(''cnn'', JObj cnn)]
   \<and> execute (CheckAndPublishNewsSources_body ''news'') second_run two_snapshots_world
     = (two_snapshots_world\<lparr>topics := [''projects/news/topics/sources'']\<rparr>, None)
   \<and> published two_snapshots_world = []"
proof -
  have 1: "execute (GetNewsSources_body [bbc]) first_run empty_world
      = (empty_world\<lparr>sources := [''2020-03-14'' \<mapsto> [(''bbc'', JObj bbc)]]\<rparr>, None)"
    by (simp add: GetNewsSources_body_def run_eval iso_eval first_run_def empty_world_def bbc_def)
  have 2: "execute (GetNewsSources_body [cnn]) second_run
      (empty_world\<lparr>sources := [''2020-03-14'' \<mapsto> [(''bbc'', JObj bbc)]]\<rparr>)
      = (two_snapshots_world, None)"
    by (simp add: GetNewsSources_body_def run_eval iso_eval second_run_def empty_world_def
        two_snapshots_world_def cnn_def)
  have 3: "sources two_snapshots_world ''2020-03-14'' = Some [(''bbc'', JObj bbc)]"
    by (simp add: two_snapshots_world_def)
  have 4: "sources two_snapshots_world ''2020-03-15'' = Some [(''cnn'', JObj cnn)]"
    by (simp add: two_snapshots_world_def)
  have 5: "execute (CheckAndPublishNewsSources_body ''news'') second_run two_snapshots_world
      = (two_snapshots_world\<lparr>topics := [''projects/news/topics/sources'']\<rparr>, None)"
    by (simp add: CheckAndPublishNewsSources_body_def run_eval iso_eval second_run_def
        two_snapshots_world_def empty_world_def)
  have 6: "published two_snapshots_world = []"
    by (simp add: two_snapshots_world_def empty_world_def)
  show ?thesis unfolding 1 fst_conv using 2 3 4 5 6 by blast
qed

section \<open>Snapshotters on a day that has its snapshot\<close>

text \<open>
  C10 (the code departs from the claim). Both snapshotters run on 2020-03-15 when the
  snapshots of that day exist. Both replace them by what they fetched. The sources
  snapshotter logs the warning; the schema snapshotter never asks whether a document
  exists and logs nothing.
\<close>

theorem schema_snapshotter_overwrites_without_warning:
  "execute (GetDataSchemas_body [bbc] [headline]) second_run snapshots_taken_world
     = (snapshots_taken_world
          \<lparr>sources_schema := [''2020-03-15'' \<mapsto> [(''keys'', [''id'', ''name''])]],
           article_schema := [''2020-03-15'' \<mapsto> [(''keys'', [''url'', ''title''])]]\<rparr>, None)
   \<and> warnings snapshots_taken_world = []
   \<and> execute (GetNewsSources_body [cnn]) second_run snapshots_taken_world
     = (snapshots_taken_world
          \<lparr>sources := [''2020-03-15'' \<mapsto> [(''cnn'', JObj cnn)]],
           warnings := [''overriding sources for date 2020-03-15'']\<rparr>, None)"
  by (simp add: GetDataSchemas_body_def GetNewsSources_body_def pop_def run_eval iso_eval
      second_run_def snapshots_taken_world_def empty_world_def bbc_def cnn_def headline_def)

text \<open>
  In general: the sources snapshotter, on a day that has its snapshot, replaces the
  snapshot and appends one warning to the log; the schema snapshotter leaves the log as
  it is, whatever the state, and when it returns normally both schema snapshots of the
  day are the ones it fetched.
\<close>

lemma GetNewsSources_overwrites_with_warning:
  assumes "sources w (date_isoformat (dt_date execution_date)) \<noteq> None"
    and "sources_by_id [] fetched = Inr doc"
  shows "GetNewsSources_body fetched execution_date p w
    = (w\<lparr>warnings := warnings w
           @ [''overriding sources for date '' @ date_isoformat (dt_date execution_date)],
         sources := (sources w)(date_isoformat (dt_date execution_date) \<mapsto> doc)\<rparr>, None)"
  using assms by (simp add: GetNewsSources_body_def Let_def)

lemma GetDataSchemas_never_warns:
  "warnings (fst (GetDataSchemas_body fetched headlines execution_date p w)) = warnings w"
  by (simp add: GetDataSchemas_body_def Let_def split: sum.splits)

lemma GetDataSchemas_overwrites:
  assumes "snd (GetDataSchemas_body fetched headlines execution_date p w) = None"
  shows "sources_schema (fst (GetDataSchemas_body fetched headlines execution_date p w))
        (date_isoformat (dt_date execution_date)) = Some [(''keys'', keys (last fetched))]
    \<and> article_schema (fst (GetDataSchemas_body fetched headlines execution_date p w))
        (date_isoformat (dt_date execution_date)) = Some [(''keys'', keys (last headlines))]"
  using assms
  by (auto simp: GetDataSchemas_body_def Let_def pop_def split: sum.splits if_splits)

section \<open>What the notifiers publish\<close>

lemma set_set_difference: "set (set_difference xs ys) = set xs - set ys"
  by (auto simp: set_difference_def)

lemma distinct_set_difference: "distinct (set_difference xs ys)"
  by (simp add: set_difference_def)

lemma wire_format_simps [simp]:
  "wire_format [(''new'', ks)]" "wire_format [(''remove'', ks)]"
  by (simp_all add: wire_format_def)

lemma diff_messages_format: "m \<in> set (diff_messages t pk ck) \<Longrightarrow> wire_format (snd m) \<and> fst m = t"
  by (auto simp: diff_messages_def Let_def wire_format_def split: if_splits)

lemma check_schema_only_current:
  assumes "prev = None" "current = Some doc" "map_of doc ''keys'' = Some ks"
  shows "check_schema prev current t1 t2 w = (w\<lparr>published := published w @ [(t2, [(''new'', ks)])]\<rparr>, None)"
  using assms by (simp add: check_schema_def subscript_def publish_def)

lemma check_schema_returns:
  assumes "has_keys prev" "has_keys current"
  shows "snd (check_schema prev current t1 t2 w) = None"
  using assms
  by (auto simp: check_schema_def has_keys_def subscript_def Let_def split: option.splits)

lemma check_schema_messages:
  "\<exists>msgs. fst (check_schema prev current t1 t2 w) = w\<lparr>published := published w @ msgs\<rparr>
     \<and> (\<forall>m \<in> set msgs. wire_format (snd m))
     \<and> ((prev \<noteq> None \<and> current \<noteq> None \<and> (\<forall>m \<in> set msgs. fst m = t1))
          \<or> (\<forall>m \<in> set msgs. fst m = t2))"
proof (cases current)
  case None
  then have "fst (check_schema prev current t1 t2 w) = w\<lparr>published := published w @ []\<rparr>"
    by (simp add: check_schema_def split: option.splits)
  then show ?thesis by (intro exI [of _ "[]"]) simp
next
  case cur: (Some current_doc)
  show ?thesis
  proof (cases prev)
    case None
    show ?thesis
    proof (cases "map_of current_doc ''keys''")
      case nk: None
      with None cur have "fst (check_schema prev current t1 t2 w) = w\<lparr>published := published w @ []\<rparr>"
        by (simp add: check_schema_def subscript_def)
      then show ?thesis by (intro exI [of _ "[]"]) simp
    next
      case (Some ks)
      with None cur have "fst (check_schema prev current t1 t2 w)
          = w\<lparr>published := published w @ [(t2, [(''new'', ks)])]\<rparr>"
        by (simp add: check_schema_only_current)
      then show ?thesis by (intro exI [of _ "[(t2, [(''new'', ks)])]"]) simp
    qed
  next
    case prv: (Some prev_doc)
    have "\<exists>msgs. fst (check_schema prev current t1 t2 w) = w\<lparr>published := published w @ msgs\<rparr>
       \<and> (\<forall>m \<in> set msgs. wire_format (snd m) \<and> fst m = t1)"
    proof (cases "map_of prev_doc ''keys''")
      case None
      with prv cur have "fst (check_schema prev current t1 t2 w) = w\<lparr>published := published w @ []\<rparr>"
        by (simp add: check_schema_def subscript_def)
      then show ?thesis by (intro exI [of _ "[]"]) simp
    next
      case pk: (Some pk)
      show ?thesis
      proof (cases "map_of current_doc ''keys''")
        case None
        with prv cur pk have "fst (check_schema prev current t1 t2 w) = w\<lparr>published := published w @ []\<rparr>"
          by (simp add: check_schema_def subscript_def)
        then show ?thesis by (intro exI [of _ "[]"]) simp
      next
        case (Some ck)
        with prv cur pk have "fst (check_schema prev current t1 t2 w)
            = w\<lparr>published := published w @ diff_messages t1 pk ck\<rparr>"
          by (simp add: check_schema_def subscript_def publish_def diff_messages_def Let_def)
        then show ?thesis
          by (intro exI [of _ "diff_messages t1 pk ck"]) (simp add: diff_messages_format)
      qed
    qed
    with prv cur show ?thesis by auto
  qed
qed

lemma check_pubsub_topic_fields [simp]:
  "sources (check_pubsub_topic w t) = sources w"
  "sources_schema (check_pubsub_topic w t) = sources_schema w"
  "article_schema (check_pubsub_topic w t) = article_schema w"
  "articles (check_pubsub_topic w t) = articles w"
  "published (check_pubsub_topic w t) = published w"
  "warnings (check_pubsub_topic w t) = warnings w"
  by (simp_all add: check_pubsub_topic_def)

lemma published_update_inject:
  "w\<lparr>published := published w @ a\<rparr> = w\<lparr>published := published w @ b\<rparr> \<Longrightarrow> a = b"
proof -
  assume "w\<lparr>published := published w @ a\<rparr> = w\<lparr>published := published w @ b\<rparr>"
  then have "published (w\<lparr>published := published w @ a\<rparr>) = published (w\<lparr>published := published w @ b\<rparr>)"
    by (rule arg_cong)
  then show ?thesis by simp
qed

lemma CheckDataSchemas_messages:
  fixes project execution_date p w
  defines "st \<equiv> topic_path project SOURCES_SCHEMA_SOURCES_KEY"
    and "at \<equiv> topic_path project ARTICLES_SCHEMA_SOURCES_KEY"
    and "pk \<equiv> datetime_isoformat p"
    and "dk \<equiv> date_isoformat (dt_date execution_date)"
    and "R \<equiv> CheckDataSchemas_body project execution_date p w"
  shows "\<exists>m1 m2. published (fst R) = published w @ m1 @ m2
     \<and> (\<forall>m \<in> set (m1 @ m2). wire_format (snd m))
     \<and> ((sources_schema w pk \<noteq> None \<and> sources_schema w dk \<noteq> None \<and> (\<forall>m \<in> set m1. fst m = st))
          \<or> (\<forall>m \<in> set m1. fst m = at))
     \<and> (\<forall>m \<in> set m2. fst m = at)
     \<and> (\<forall>doc ks. sources_schema w pk = None \<longrightarrow> sources_schema w dk = Some doc
           \<longrightarrow> map_of doc ''keys'' = Some ks \<longrightarrow> m1 = [(at, [(''new'', ks)])])
     \<and> (\<forall>doc ks. has_keys (sources_schema w pk) \<longrightarrow> has_keys (sources_schema w dk)
           \<longrightarrow> article_schema w pk = None \<longrightarrow> article_schema w dk = Some doc
           \<longrightarrow> map_of doc ''keys'' = Some ks \<longrightarrow> m2 = [(at, [(''new'', ks)])] \<and> snd R = None)"
proof -
  define w2 where "w2 = check_pubsub_topic (check_pubsub_topic w st) at"
  define B1 where "B1 = check_schema (sources_schema w pk) (sources_schema w dk) st at w2"
  define w3 where "w3 = fst B1"
  define B2 where "B2 = check_schema (article_schema w pk) (article_schema w dk) at at w3"
  have pw2: "published w2 = published w" by (simp add: w2_def)
  obtain m1 where m1: "w3 = w2\<lparr>published := published w2 @ m1\<rparr>"
      "\<forall>m \<in> set m1. wire_format (snd m)"
      "(sources_schema w pk \<noteq> None \<and> sources_schema w dk \<noteq> None \<and> (\<forall>m \<in> set m1. fst m = st))
        \<or> (\<forall>m \<in> set m1. fst m = at)"
    unfolding w3_def B1_def
    using check_schema_messages [of "sources_schema w pk" "sources_schema w dk" st at w2] by blast
  obtain m2' where m2': "fst B2 = w3\<lparr>published := published w3 @ m2'\<rparr>"
      "\<forall>m \<in> set m2'. wire_format (snd m)" "\<forall>m \<in> set m2'. fst m = at"
    unfolding B2_def
    using check_schema_messages [of "article_schema w pk" "article_schema w dk" at at w3] by blast
  have a3: "article_schema w3 = article_schema w"
    by (simp add: m1(1) w2_def)
  have body: "R = (case check_schema (sources_schema w2 pk) (sources_schema w2 dk) st at w2 of
        (w3, Some err) \<Rightarrow> (w3, Some err)
      | (w3, None) \<Rightarrow> check_schema (article_schema w3 pk) (article_schema w3 dk) at at w3)"
    unfolding R_def CheckDataSchemas_body_def Let_def st_def at_def pk_def dk_def w2_def
    by simp
  have s2: "sources_schema w2 = sources_schema w" by (simp add: w2_def)
  have B1: "B1 = (w3, snd B1)" by (simp add: w3_def)
  have R: "R = (case snd B1 of Some err \<Rightarrow> (w3, Some err) | None \<Rightarrow> B2)"
  proof (cases "snd B1")
    case None
    with B1 have "B1 = (w3, None)" by simp
    then show ?thesis unfolding body s2 B1_def [symmetric] by (simp add: None B2_def a3)
  next
    case (Some err)
    with B1 have "B1 = (w3, Some err)" by simp
    then show ?thesis unfolding body s2 B1_def [symmetric] by (simp add: Some)
  qed
  have boot1: "m1 = [(at, [(''new'', ks)])]"
    if "sources_schema w pk = None" "sources_schema w dk = Some doc" "map_of doc ''keys'' = Some ks"
    for doc ks
  proof -
    have "w3 = w2\<lparr>published := published w2 @ [(at, [(''new'', ks)])]\<rparr>"
      unfolding w3_def B1_def using that by (simp add: check_schema_only_current)
    with m1(1) have "w2\<lparr>published := published w2 @ m1\<rparr>
        = w2\<lparr>published := published w2 @ [(at, [(''new'', ks)])]\<rparr>" by simp
    then show ?thesis by (rule published_update_inject)
  qed
  define m2 where "m2 = (case snd B1 of Some err \<Rightarrow> [] | None \<Rightarrow> m2')"
  have pub: "published (fst R) = published w @ m1 @ m2"
    unfolding R m2_def using m1(1) m2'(1) pw2 by (simp split: option.splits)
  have fmt: "\<forall>m \<in> set (m1 @ m2). wire_format (snd m)"
    unfolding m2_def using m1(2) m2'(2) by (auto split: option.splits)
  have top2: "\<forall>m \<in> set m2. fst m = at"
    unfolding m2_def using m2'(3) by (auto split: option.splits)
  have boot2: "m2 = [(at, [(''new'', ks)])] \<and> snd R = None"
    if "has_keys (sources_schema w pk)" "has_keys (sources_schema w dk)"
      "article_schema w pk = None" "article_schema w dk = Some doc" "map_of doc ''keys'' = Some ks"
    for doc ks
  proof -
    have r1: "snd B1 = None" unfolding B1_def using that(1,2) by (rule check_schema_returns)
    have b2: "B2 = (w3\<lparr>published := published w3 @ [(at, [(''new'', ks)])]\<rparr>, None)"
      unfolding B2_def using that(3,4,5) by (simp add: check_schema_only_current)
    with m2'(1) have "w3\<lparr>published := published w3 @ m2'\<rparr>
        = w3\<lparr>published := published w3 @ [(at, [(''new'', ks)])]\<rparr>" by simp
    then have "m2' = [(at, [(''new'', ks)])]" by (rule published_update_inject)
    with r1 b2 show ?thesis by (simp add: m2_def R)
  qed
  from pub fmt m1(3) top2 boot1 boot2 show ?thesis by blast
qed

lemma sources_notifier_prev_missing:
  assumes "sources w (datetime_isoformat p) = None"
  shows "CheckAndPublishNewsSources_body project execution_date p w
    = (check_pubsub_topic w (topic_path project COLLECTION_SOURCES_KEY), None)"
  using assms by (simp add: CheckAndPublishNewsSources_body_def Let_def)

lemma sources_notifier_today_missing:
  assumes "sources w (datetime_isoformat p) = Some prev_doc"
    and "sources w (date_isoformat (dt_date execution_date)) = None"
  shows "CheckAndPublishNewsSources_body project execution_date p w
    = (check_pubsub_topic w (topic_path project COLLECTION_SOURCES_KEY), Some TypeError)"
  using assms by (simp add: CheckAndPublishNewsSources_body_def Let_def)

text \<open>
  When the sources notifier finds a document under both ids it reads, it publishes what
  the specification asks of a diff.
\<close>

lemma sources_notifier_diff:
  assumes "sources w (datetime_isoformat p) = Some prev_doc"
    and "sources w (date_isoformat (dt_date execution_date)) = Some current_doc"
  shows "CheckAndPublishNewsSources_body project execution_date p w
    = ((check_pubsub_topic w (topic_path project COLLECTION_SOURCES_KEY))
         \<lparr>published := published w
            @ diff_messages (topic_path project COLLECTION_SOURCES_KEY) (keys prev_doc) (keys current_doc)\<rparr>,
       None)"
  using assms
  by (simp add: CheckAndPublishNewsSources_body_def Let_def publish_def diff_messages_def)

lemma sources_notifier_messages:
  "\<exists>msgs. published (fst (CheckAndPublishNewsSources_body project execution_date p w))
       = published w @ msgs
     \<and> (\<forall>m \<in> set msgs. wire_format (snd m))"
proof (cases "sources w (datetime_isoformat p)")
  case None
  then show ?thesis by (simp add: sources_notifier_prev_missing)
next
  case prv: (Some prev_doc)
  show ?thesis
  proof (cases "sources w (date_isoformat (dt_date execution_date))")
    case None
    with prv show ?thesis by (simp add: sources_notifier_today_missing)
  next
    case (Some current_doc)
    with prv show ?thesis by (simp add: sources_notifier_diff diff_messages_format)
  qed
qed

lemma published_by_append [simp]: "published w' = published w @ msgs \<Longrightarrow> published_by w w' = msgs"
  by (simp add: published_by_def)

lemma published_by_same [simp]: "published w' = published w \<Longrightarrow> published_by w w' = []"
  by (simp add: published_by_def)

lemma topics_differ:
  "topic_path project SOURCES_SCHEMA_SOURCES_KEY \<noteq> topic_path project ARTICLES_SCHEMA_SOURCES_KEY"
  by (simp add: topic_path_def SOURCES_SCHEMA_SOURCES_KEY_def ARTICLES_SCHEMA_SOURCES_KEY_def)

lemma execute_body: "datetime_sub_day execution_date = Inr p \<Longrightarrow> execute body execution_date w = body execution_date p w"
  by (simp add: execute_def)

lemma second_run_prev: "datetime_sub_day second_run = Inr first_run"
  by (simp add: datetime_sub_day_def date_sub_day_def second_run_def first_run_def)

lemma first_run_key: "datetime_isoformat first_run = ''2020-03-14T00:00:00+00:00''"
  by (simp add: iso_eval first_run_def)

lemma second_run_key: "date_isoformat (dt_date second_run) = ''2020-03-15''"
  by (simp add: iso_eval second_run_def)

lemmas notifier_eval =
  CheckDataSchemas_body_def CheckAndPublishNewsSources_body_def check_schema_def
  set_difference_def published_by_def run_eval iso_eval

text \<open>
  The diff itself. Whenever the sources notifier finds a document under the id it reads
  for the previous day and one for today, it returns normally and publishes exactly one
  message per non-empty set, \<^verbatim>\<open>{remove: removed}\<close> first and \<^verbatim>\<open>{new: added}\<close> second;
  for disjoint key sets that are both non-empty these are two messages, for identical
  key sets none. The example after it has the previous document under the timestamp id.
\<close>

lemma sources_diff_messages:
  assumes "datetime_sub_day execution_date = Inr p"
    and "sources w (datetime_isoformat p) = Some prev_doc"
    and "sources w (date_isoformat (dt_date execution_date)) = Some current_doc"
  shows "\<exists>removed added.
      set removed = set (keys prev_doc) - set (keys current_doc) \<and> distinct removed
    \<and> set added = set (keys current_doc) - set (keys prev_doc) \<and> distinct added
    \<and> snd (execute (CheckAndPublishNewsSources_body project) execution_date w) = None
    \<and> published_by w (fst (execute (CheckAndPublishNewsSources_body project) execution_date w))
      = (if removed \<noteq> [] then [(topic_path project COLLECTION_SOURCES_KEY, [(''remove'', removed)])] else [])
        @ (if added \<noteq> [] then [(topic_path project COLLECTION_SOURCES_KEY, [(''new'', added)])] else [])
    \<and> (set (keys prev_doc) \<inter> set (keys current_doc) = {} \<and> keys prev_doc \<noteq> [] \<and> keys current_doc \<noteq> []
        \<longrightarrow> length (published_by w
              (fst (execute (CheckAndPublishNewsSources_body project) execution_date w))) = 2
          \<and> set removed = set (keys prev_doc) \<and> set added = set (keys current_doc))
    \<and> (set (keys prev_doc) = set (keys current_doc)
        \<longrightarrow> published_by w
              (fst (execute (CheckAndPublishNewsSources_body project) execution_date w)) = [])"
proof -
  let ?removed = "set_difference (keys prev_doc) (keys current_doc)"
  let ?added = "set_difference (keys current_doc) (keys prev_doc)"
  let ?t = "topic_path project COLLECTION_SOURCES_KEY"
  let ?E = "execute (CheckAndPublishNewsSources_body project) execution_date w"
  have E: "?E = ((check_pubsub_topic w ?t)\<lparr>published := published w
      @ diff_messages ?t (keys prev_doc) (keys current_doc)\<rparr>, None)"
    using assms by (simp add: execute_body sources_notifier_diff)
  have r: "set ?removed = set (keys prev_doc) - set (keys current_doc)" "distinct ?removed"
    by (simp_all add: set_set_difference distinct_set_difference)
  have a: "set ?added = set (keys current_doc) - set (keys prev_doc)" "distinct ?added"
    by (simp_all add: set_set_difference distinct_set_difference)
  have s: "snd ?E = None" by (simp add: E)
  have pb: "published_by w (fst ?E)
      = (if ?removed \<noteq> [] then [(?t, [(''remove'', ?removed)])] else [])
        @ (if ?added \<noteq> [] then [(?t, [(''new'', ?added)])] else [])"
    by (simp add: E diff_messages_def Let_def)
  have ne: "xs \<noteq> [] \<longleftrightarrow> set xs \<noteq> {}" for xs :: "string list" by simp
  have two: "length (published_by w (fst ?E)) = 2 \<and> set ?removed = set (keys prev_doc)
      \<and> set ?added = set (keys current_doc)"
    if "set (keys prev_doc) \<inter> set (keys current_doc) = {}" "keys prev_doc \<noteq> []" "keys current_doc \<noteq> []"
  proof -
    from that(1) have 1: "set ?removed = set (keys prev_doc)" "set ?added = set (keys current_doc)"
      unfolding r(1) a(1) by blast+
    with that(2,3) have "?removed \<noteq> []" "?added \<noteq> []"
      unfolding ne [of ?removed] ne [of ?added] by simp_all
    with 1 show ?thesis unfolding pb by simp
  qed
  have none: "published_by w (fst ?E) = []" if "set (keys prev_doc) = set (keys current_doc)"
  proof -
    from that have "set ?removed = {}" "set ?added = {}" unfolding r(1) a(1) by simp_all
    then have "?removed = []" "?added = []" by simp_all
    then show ?thesis unfolding pb by simp
  qed
  from r a s pb two none show ?thesis by blast
qed

lemma sources_diff_messages_example:
  "snd (execute (CheckAndPublishNewsSources_body ''news'') second_run timestamp_keyed_world) = None
   \<and> published_by timestamp_keyed_world
       (fst (execute (CheckAndPublishNewsSources_body ''news'') second_run timestamp_keyed_world))
     = [(''projects/news/topics/sources'', [(''remove'', [''bbc''])]),
        (''projects/news/topics/sources'', [(''new'', [''reuters''])])]"
  using sources_diff_messages [OF second_run_prev,
      where w = timestamp_keyed_world and project = "''news''"
        and prev_doc = "[(''bbc'', JObj bbc), (''cnn'', JObj cnn)]"
        and current_doc = "[(''cnn'', JObj cnn), (''reuters'', JObj reuters)]"]
  by (simp add: notifier_eval second_run_def timestamp_keyed_world_def empty_world_def)

text \<open>
  The sources collection keeps date ids only: the empty collection has none but date
  ids, the snapshotter adds a document under a date id, and the pruner only deletes.
\<close>

lemma only_date_ids_empty: "only_date_ids Map.empty"
  by (simp add: only_date_ids_def)

lemma only_date_ids_update:
  "only_date_ids c \<Longrightarrow> only_date_ids (c(date_isoformat d \<mapsto> v))"
  by (auto simp: only_date_ids_def)

lemma only_date_ids_subset: "only_date_ids c \<Longrightarrow> dom c' \<subseteq> dom c \<Longrightarrow> only_date_ids c'"
  unfolding only_date_ids_def by blast

lemma clear_old_dom: "dom (fst (clear_old c d)) \<subseteq> dom c"
proof (induction c d rule: clear_old.induct)
  case (1 c d)
  show ?case
  proof (cases "c (date_isoformat d) \<noteq> None")
    case False
    then show ?thesis by (subst clear_old.simps) simp
  next
    case True
    show ?thesis
    proof (cases "date_sub_day d")
      case (Inl e)
      with True show ?thesis by (subst clear_old.simps) auto
    next
      case (Inr d')
      from "1" [OF True Inr]
      have "dom (fst (clear_old (c(date_isoformat d := None)) d'))
          \<subseteq> dom (c(date_isoformat d := None))" .
      also have "\<dots> \<subseteq> dom c" by auto
      finally have "dom (fst (clear_old (c(date_isoformat d := None)) d')) \<subseteq> dom c" .
      with True Inr show ?thesis by (subst clear_old.simps) simp
    qed
  qed
qed

lemma GetNewsSources_keeps_date_ids:
  "only_date_ids (sources w) \<Longrightarrow>
     only_date_ids (sources (fst (execute (GetNewsSources_body fetched) execution_date w)))"
  by (auto simp: execute_def GetNewsSources_body_def Let_def only_date_ids_update
      split: sum.splits)

lemma ClearOldSourceData_keeps_date_ids:
  assumes "only_date_ids (sources w)"
  shows "only_date_ids (sources (fst (execute ClearOldSourceData_body execution_date w)))"
proof -
  have "dom (sources (fst (execute ClearOldSourceData_body execution_date w))) \<subseteq> dom (sources w)"
  proof (cases "datetime_sub_day execution_date")
    case (Inl e)
    then show ?thesis by (simp add: execute_def)
  next
    case p: (Inr p)
    show ?thesis
    proof (cases "date_sub_day (dt_date p)")
      case (Inl e)
      with p show ?thesis by (simp add: execute_def ClearOldSourceData_body_def)
    next
      case (Inr d)
      have "sources (fst (execute ClearOldSourceData_body execution_date w))
          = fst (clear_old (sources w) d)"
        using p Inr by (simp add: execute_def ClearOldSourceData_body_def split: prod.splits)
      then show ?thesis by (simp add: clear_old_dom)
    qed
  qed
  with assms show ?thesis by (rule only_date_ids_subset)
qed

text \<open>
  C2. In a sources collection with date ids only, when yesterday's snapshot exists and
  today's does not, the sources notifier returns without an exception and publishes no
  message: the state it leaves is the state it found, with its topic checked.
\<close>

theorem sources_notifier_skips_without_today:
  assumes "only_date_ids (sources w)"
    and "datetime_sub_day execution_date = Inr p"
    and "sources w (date_isoformat (dt_date p)) \<noteq> None"
    and "sources w (date_isoformat (dt_date execution_date)) = None"
  shows "execute (CheckAndPublishNewsSources_body project) execution_date w
      = (check_pubsub_topic w (topic_path project COLLECTION_SOURCES_KEY), None)
    \<and> snd (execute (CheckAndPublishNewsSources_body project) execution_date w) = None
    \<and> published (fst (execute (CheckAndPublishNewsSources_body project) execution_date w))
      = published w"
proof -
  from assms(1) have "sources w (datetime_isoformat p) = None"
    unfolding only_date_ids_def by (rule only_date_ids_prev_read_misses)
  then have "CheckAndPublishNewsSources_body project execution_date p w
      = (check_pubsub_topic w (topic_path project COLLECTION_SOURCES_KEY), None)"
    by (rule sources_notifier_prev_missing)
  with assms(2) show ?thesis by (simp add: execute_body)
qed

theorem sources_notifier_skips_without_today_witness:
  "execute (GetNewsSources_body [bbc]) first_run empty_world = (yesterday_only_world, None)
   \<and> sources yesterday_only_world ''2020-03-14'' = Some [(''bbc'', JObj bbc)]
   \<and> sources yesterday_only_world ''2020-03-15'' = None
   \<and> execute (CheckAndPublishNewsSources_body ''news'') second_run yesterday_only_world
     = (yesterday_only_world\<lparr>topics := [''projects/news/topics/sources'']\<rparr>, None)
   \<and> published yesterday_only_world = []"
proof -
  have a: "''2020-03-14'' = date_isoformat \<lparr>year = 2020, month = 3, day = 14\<rparr>"
    by (simp add: iso_eval)
  have ids: "only_date_ids (sources yesterday_only_world)"
    using a by (auto simp: only_date_ids_def yesterday_only_world_def empty_world_def)
  have y: "sources yesterday_only_world (date_isoformat (dt_date first_run)) \<noteq> None"
    by (simp add: iso_eval first_run_def yesterday_only_world_def empty_world_def)
  have t: "sources yesterday_only_world (date_isoformat (dt_date second_run)) = None"
    by (simp add: iso_eval second_run_def yesterday_only_world_def empty_world_def)
  have g: "execute (GetNewsSources_body [bbc]) first_run empty_world = (yesterday_only_world, None)"
    by (simp add: GetNewsSources_body_def run_eval iso_eval first_run_def empty_world_def
        yesterday_only_world_def bbc_def)
  from sources_notifier_skips_without_today [OF ids second_run_prev y t, of "''news''"] g
  show ?thesis
    by (simp add: yesterday_only_world_def empty_world_def check_pubsub_topic_def topic_path_def
        COLLECTION_SOURCES_KEY_def)
qed

text \<open>
  C4. The schema notifier: when its read of the previous day's schema finds no document
  and today's schema snapshot exists, it publishes \<^verbatim>\<open>{new: keys}\<close> with all the keys of
  today's snapshot. For the source schemas this is the first message of the run; for the
  article schemas it is the last, and the task then returns normally (the article block
  is reached when the source block has not raised, which it cannot when the source
  schema documents carry their \<^verbatim>\<open>keys\<close>). The sources notifier: when its read of the
  previous day's snapshot finds no document, it returns normally and publishes nothing.
  By C3 these reads find no document in any collection that holds only what the
  snapshotters wrote.
\<close>

theorem schema_bootstrap_sources_silent:
  assumes "datetime_sub_day execution_date = Inr p"
  shows "(sources_schema w (datetime_isoformat p) = None
        \<and> sources_schema w (date_isoformat (dt_date execution_date)) = Some doc
        \<and> map_of doc ''keys'' = Some ks
      \<longrightarrow> (\<exists>rest. published (fst (execute (CheckDataSchemas_body project) execution_date w))
            = published w @ (topic_path project ARTICLES_SCHEMA_SOURCES_KEY, [(''new'', ks)]) # rest))
    \<and> (article_schema w (datetime_isoformat p) = None
        \<and> article_schema w (date_isoformat (dt_date execution_date)) = Some doc'
        \<and> map_of doc' ''keys'' = Some ks'
        \<and> has_keys (sources_schema w (datetime_isoformat p))
        \<and> has_keys (sources_schema w (date_isoformat (dt_date execution_date)))
      \<longrightarrow> (\<exists>before. published (fst (execute (CheckDataSchemas_body project) execution_date w))
            = published w @ before @ [(topic_path project ARTICLES_SCHEMA_SOURCES_KEY, [(''new'', ks')])])
          \<and> snd (execute (CheckDataSchemas_body project) execution_date w) = None)
    \<and> (sources w (datetime_isoformat p) = None
      \<longrightarrow> published (fst (execute (CheckAndPublishNewsSources_body project) execution_date w))
            = published w
          \<and> snd (execute (CheckAndPublishNewsSources_body project) execution_date w) = None)"
proof -
  let ?R = "CheckDataSchemas_body project execution_date p w"
  let ?at = "topic_path project ARTICLES_SCHEMA_SOURCES_KEY"
  have ex: "execute (CheckDataSchemas_body project) execution_date w = ?R"
    using assms by (rule execute_body)
  have ex': "execute (CheckAndPublishNewsSources_body project) execution_date w
      = CheckAndPublishNewsSources_body project execution_date p w"
    using assms by (rule execute_body)
  from CheckDataSchemas_messages [of project execution_date p w]
  obtain m1 m2 where pub: "published (fst ?R) = published w @ m1 @ m2"
    and b1: "\<And>doc ks. sources_schema w (datetime_isoformat p) = None \<Longrightarrow>
        sources_schema w (date_isoformat (dt_date execution_date)) = Some doc \<Longrightarrow>
        map_of doc ''keys'' = Some ks \<Longrightarrow> m1 = [(?at, [(''new'', ks)])]"
    and b2: "\<And>doc ks. has_keys (sources_schema w (datetime_isoformat p)) \<Longrightarrow>
        has_keys (sources_schema w (date_isoformat (dt_date execution_date))) \<Longrightarrow>
        article_schema w (datetime_isoformat p) = None \<Longrightarrow>
        article_schema w (date_isoformat (dt_date execution_date)) = Some doc \<Longrightarrow>
        map_of doc ''keys'' = Some ks \<Longrightarrow> m2 = [(?at, [(''new'', ks)])] \<and> snd ?R = None"
    by blast
  have A: "\<exists>rest. published (fst ?R) = published w @ (?at, [(''new'', ks)]) # rest"
    if "sources_schema w (datetime_isoformat p) = None"
      "sources_schema w (date_isoformat (dt_date execution_date)) = Some doc"
      "map_of doc ''keys'' = Some ks"
    using pub b1 [OF that] by simp
  have B: "(\<exists>before. published (fst ?R) = published w @ before @ [(?at, [(''new'', ks')])])
      \<and> snd ?R = None"
    if "article_schema w (datetime_isoformat p) = None"
      "article_schema w (date_isoformat (dt_date execution_date)) = Some doc'"
      "map_of doc' ''keys'' = Some ks'"
      "has_keys (sources_schema w (datetime_isoformat p))"
      "has_keys (sources_schema w (date_isoformat (dt_date execution_date)))"
    using pub b2 [OF that(4,5,1,2,3)] by auto
  have C: "published (fst (CheckAndPublishNewsSources_body project execution_date p w)) = published w
      \<and> snd (CheckAndPublishNewsSources_body project execution_date p w) = None"
    if "sources w (datetime_isoformat p) = None"
    using that by (simp add: sources_notifier_prev_missing)
  from A B C show ?thesis unfolding ex ex' by blast
qed

theorem schema_bootstrap_sources_silent_witness:
  "(\<exists>rest. published (fst (execute (CheckDataSchemas_body ''news'') second_run snapshots_taken_world))
       = (''projects/news/topics/articles-schema'', [(''new'', [''id''])]) # rest)
   \<and> (\<exists>before. published (fst (execute (CheckDataSchemas_body ''news'') second_run snapshots_taken_world))
       = before @ [(''projects/news/topics/articles-schema'', [(''new'', [''url''])])])
   \<and> snd (execute (CheckDataSchemas_body ''news'') second_run snapshots_taken_world) = None
   \<and> published (fst (execute (CheckAndPublishNewsSources_body ''news'') second_run snapshots_taken_world)) = []
   \<and> snd (execute (CheckAndPublishNewsSources_body ''news'') second_run snapshots_taken_world) = None"
  using schema_bootstrap_sources_silent [OF second_run_prev,
      where w = snapshots_taken_world and project = "''news''"
        and doc = "[(''keys'', [''id''])]" and ks = "[''id'']"
        and doc' = "[(''keys'', [''url''])]" and ks' = "[''url'']"]
  unfolding first_run_key second_run_key
  by (simp add: snapshots_taken_world_def empty_world_def has_keys_def topic_path_def
      ARTICLES_SCHEMA_SOURCES_KEY_def)

text \<open>
  C5. The two schema topics are different. On the bootstrap path of the source schemas
  (no previous document read, today's snapshot there) the message \<^verbatim>\<open>{new: keys}\<close> is
  the first message of the run and goes to the articles-schema topic, as does every
  message of that run: none goes to the sources-schema topic. Whenever a run publishes
  to the sources-schema topic, both source schema documents were read.
\<close>

theorem source_schema_bootstrap_topic:
  assumes "datetime_sub_day execution_date = Inr p"
  shows "topic_path project SOURCES_SCHEMA_SOURCES_KEY \<noteq> topic_path project ARTICLES_SCHEMA_SOURCES_KEY
    \<and> (sources_schema w (datetime_isoformat p) = None
        \<and> sources_schema w (date_isoformat (dt_date execution_date)) = Some doc
        \<and> map_of doc ''keys'' = Some ks
      \<longrightarrow> hd (published_by w (fst (execute (CheckDataSchemas_body project) execution_date w)))
            = (topic_path project ARTICLES_SCHEMA_SOURCES_KEY, [(''new'', ks)])
          \<and> (\<forall>m \<in> set (published_by w (fst (execute (CheckDataSchemas_body project) execution_date w))).
                fst m = topic_path project ARTICLES_SCHEMA_SOURCES_KEY))
    \<and> ((\<exists>m \<in> set (published_by w (fst (execute (CheckDataSchemas_body project) execution_date w))).
          fst m = topic_path project SOURCES_SCHEMA_SOURCES_KEY)
      \<longrightarrow> sources_schema w (datetime_isoformat p) \<noteq> None
          \<and> sources_schema w (date_isoformat (dt_date execution_date)) \<noteq> None)"
proof -
  let ?R = "CheckDataSchemas_body project execution_date p w"
  let ?at = "topic_path project ARTICLES_SCHEMA_SOURCES_KEY"
  let ?st = "topic_path project SOURCES_SCHEMA_SOURCES_KEY"
  have ex: "execute (CheckDataSchemas_body project) execution_date w = ?R"
    using assms by (rule execute_body)
  from CheckDataSchemas_messages [of project execution_date p w]
  obtain m1 m2 where pub: "published (fst ?R) = published w @ m1 @ m2"
    and t1: "(sources_schema w (datetime_isoformat p) \<noteq> None
          \<and> sources_schema w (date_isoformat (dt_date execution_date)) \<noteq> None
          \<and> (\<forall>m \<in> set m1. fst m = ?st))
        \<or> (\<forall>m \<in> set m1. fst m = ?at)"
    and t2: "\<forall>m \<in> set m2. fst m = ?at"
    and b1: "\<And>doc ks. sources_schema w (datetime_isoformat p) = None \<Longrightarrow>
        sources_schema w (date_isoformat (dt_date execution_date)) = Some doc \<Longrightarrow>
        map_of doc ''keys'' = Some ks \<Longrightarrow> m1 = [(?at, [(''new'', ks)])]"
    by blast
  have pb: "published_by w (fst ?R) = m1 @ m2" using pub by simp
  have A: "hd (published_by w (fst ?R)) = (?at, [(''new'', ks)])
      \<and> (\<forall>m \<in> set (published_by w (fst ?R)). fst m = ?at)"
    if "sources_schema w (datetime_isoformat p) = None"
      "sources_schema w (date_isoformat (dt_date execution_date)) = Some doc"
      "map_of doc ''keys'' = Some ks"
    unfolding pb using b1 [OF that] t2 by simp
  have B: "sources_schema w (datetime_isoformat p) \<noteq> None
      \<and> sources_schema w (date_isoformat (dt_date execution_date)) \<noteq> None"
    if "\<exists>m \<in> set (published_by w (fst ?R)). fst m = ?st"
  proof -
    from that obtain m where m: "m \<in> set (m1 @ m2)" "fst m = ?st" unfolding pb by blast
    with t2 topics_differ [of project] have "m \<in> set m1" by auto
    with m(2) t1 topics_differ [of project] show ?thesis by auto
  qed
  from A B topics_differ [of project] show ?thesis unfolding ex by blast
qed

theorem source_schema_bootstrap_topic_witness:
  "published_by snapshots_taken_world
       (fst (execute (CheckDataSchemas_body ''news'') second_run snapshots_taken_world))
     = [(''projects/news/topics/articles-schema'', [(''new'', [''id''])]),
        (''projects/news/topics/articles-schema'', [(''new'', [''url''])])]
   \<and> hd (published_by snapshots_taken_world
       (fst (execute (CheckDataSchemas_body ''news'') second_run snapshots_taken_world)))
     = (''projects/news/topics/articles-schema'', [(''new'', [''id''])])
   \<and> sources_schema snapshots_taken_world ''2020-03-14T00:00:00+00:00'' = None
   \<and> sources_schema snapshots_taken_world ''2020-03-15'' = Some [(''keys'', [''id''])]"
  using source_schema_bootstrap_topic [OF second_run_prev,
      where w = snapshots_taken_world and project = "''news''"
        and doc = "[(''keys'', [''id''])]" and ks = "[''id'']"]
  by (simp add: notifier_eval second_run_def snapshots_taken_world_def empty_world_def)

text \<open>
  C9. Every message that a task publishes is a dict with exactly one key, \<^verbatim>\<open>new\<close> or
  \<^verbatim>\<open>remove\<close>, mapped to a list of strings; every publishing site hands that dict to
  \<^verbatim>\<open>bytes(json.dumps(...), 'utf8')\<close>. The two notifiers only append to the messages
  published before, also when they end with an exception, and what they append has that
  format; the snapshotters, the pruners and the article fetcher publish nothing.
\<close>

theorem published_messages_wire_format:
  "(\<forall>m \<in> set (published_by w
        (fst (execute (CheckAndPublishNewsSources_body project) execution_date w))).
      wire_format (snd m))
   \<and> (\<forall>m \<in> set (published_by w (fst (execute (CheckDataSchemas_body project) execution_date w))).
      wire_format (snd m))
   \<and> published (fst (execute (CheckAndPublishNewsSources_body project) execution_date w))
     = published w
       @ published_by w (fst (execute (CheckAndPublishNewsSources_body project) execution_date w))
   \<and> published (fst (execute (CheckDataSchemas_body project) execution_date w))
     = published w @ published_by w (fst (execute (CheckDataSchemas_body project) execution_date w))
   \<and> published (fst (execute (GetNewsSources_body fetched) execution_date w)) = published w
   \<and> published (fst (execute (GetDataSchemas_body fetched headlines) execution_date w)) = published w
   \<and> published (fst (execute ClearOldSourceData_body execution_date w)) = published w
   \<and> published (fst (execute ClearOldSchemas_body execution_date w)) = published w
   \<and> published (fst (store_articles md5_hex date_key keyword w page)) = published w"
proof -
  have N: "(\<forall>m \<in> set (published_by w
        (fst (execute (CheckAndPublishNewsSources_body project) execution_date w))).
      wire_format (snd m))
    \<and> published (fst (execute (CheckAndPublishNewsSources_body project) execution_date w))
     = published w
       @ published_by w (fst (execute (CheckAndPublishNewsSources_body project) execution_date w))"
  proof (cases "datetime_sub_day execution_date")
    case (Inl e)
    then show ?thesis by (simp add: execute_def)
  next
    case (Inr p)
    from sources_notifier_messages [of project execution_date p w] obtain msgs where
      "published (fst (CheckAndPublishNewsSources_body project execution_date p w)) = published w @ msgs"
      "\<forall>m \<in> set msgs. wire_format (snd m)" by blast
    then show ?thesis by (simp add: execute_body [OF Inr])
  qed
  have S: "(\<forall>m \<in> set (published_by w (fst (execute (CheckDataSchemas_body project) execution_date w))).
      wire_format (snd m))
    \<and> published (fst (execute (CheckDataSchemas_body project) execution_date w))
     = published w @ published_by w (fst (execute (CheckDataSchemas_body project) execution_date w))"
  proof (cases "datetime_sub_day execution_date")
    case (Inl e)
    then show ?thesis by (simp add: execute_def)
  next
    case (Inr p)
    from CheckDataSchemas_messages [of project execution_date p w] obtain m1 m2 where
      "published (fst (CheckDataSchemas_body project execution_date p w)) = published w @ m1 @ m2"
      "\<forall>m \<in> set (m1 @ m2). wire_format (snd m)" by blast
    then show ?thesis by (simp add: execute_body [OF Inr])
  qed
  have G: "published (fst (execute (GetNewsSources_body fetched) execution_date w)) = published w"
    by (simp add: execute_def GetNewsSources_body_def Let_def split: sum.splits)
  have H: "published (fst (execute (GetDataSchemas_body fetched headlines) execution_date w)) = published w"
    by (simp add: execute_def GetDataSchemas_body_def Let_def split: sum.splits)
  have C1: "published (fst (execute ClearOldSourceData_body execution_date w)) = published w"
    by (simp add: execute_def ClearOldSourceData_body_def split: sum.splits prod.splits)
  have C2: "published (fst (execute ClearOldSchemas_body execution_date w)) = published w"
    by (simp add: execute_def ClearOldSchemas_body_def split: sum.splits prod.splits option.splits)
  have A: "published (fst (store_articles md5_hex date_key keyword w page)) = published w"
  proof (induction page arbitrary: w)
    case Nil
    then show ?case by simp
  next
    case (Cons a page)
    have "published (fst (store_article md5_hex date_key keyword w a)) = published w"
      by (simp add: store_article_def Let_def split: sum.splits)
    with Cons show ?case
      by (cases "store_article md5_hex date_key keyword w a") (auto split: option.splits)
  qed
  from N S G H C1 C2 A show ?thesis by blast
qed

theorem published_messages_wire_format_witness:
  "published_by timestamp_keyed_world
       (fst (execute (CheckAndPublishNewsSources_body ''news'') second_run timestamp_keyed_world))
     = [(''projects/news/topics/sources'', [(''remove'', [''bbc''])]),
        (''projects/news/topics/sources'', [(''new'', [''reuters''])])]
   \<and> wire_format [(''remove'', [''bbc''])] \<and> wire_format [(''new'', [''reuters''])]
   \<and> published_by timestamp_keyed_world
       (fst (execute (CheckDataSchemas_body ''news'') second_run timestamp_keyed_world))
     = [(''projects/news/topics/sources-schema'', [(''remove'', [''name''])]),
        (''projects/news/topics/sources-schema'', [(''new'', [''url''])]),
        (''projects/news/topics/articles-schema'', [(''new'', [''url''])])]
   \<and> wire_format [(''remove'', [''name''])] \<and> wire_format [(''new'', [''url''])]"
  using published_messages_wire_format [of timestamp_keyed_world "''news''" second_run]
  by (simp add: notifier_eval second_run_def timestamp_keyed_world_def empty_world_def)

section \<open>Warehouse table provisioning\<close>

lemma get_field_schema_name: "get_field_schema n s = Inr f \<Longrightarrow> name f = n"
  by (cases s) (auto split: sum.splits option.splits)

lemma append_missing_appends:
  "append_missing names decl acc = Inr new \<Longrightarrow>
     \<exists>added. new = acc @ added
       \<and> map Inr added = map (\<lambda>(n, s). get_field_schema n s) (filter (\<lambda>(n, s). n \<notin> set names) decl)"
proof (induction decl arbitrary: acc)
  case Nil
  then show ?case by simp
next
  case (Cons d decl)
  obtain n s where d: "d = (n, s)" by (cases d)
  show ?case
  proof (cases "n \<in> set names")
    case True
    with Cons.prems d have "append_missing names decl acc = Inr new" by simp
    from Cons.IH [OF this] True d show ?thesis by simp
  next
    case False
    with Cons.prems d obtain f where f: "get_field_schema n s = Inr f"
      "append_missing names decl (acc @ [f]) = Inr new"
      by (auto split: sum.splits)
    from Cons.IH [OF f(2)] obtain added where
      "new = (acc @ [f]) @ added"
      "map Inr added = map (\<lambda>(n, s). get_field_schema n s) (filter (\<lambda>(n, s). n \<notin> set names) decl)"
      by blast
    with False d f(1) show ?thesis by (intro exI [of _ "f # added"]) simp
  qed
qed

lemma append_missing_nothing:
  "fst ` set decl \<subseteq> set names \<Longrightarrow> append_missing names decl acc = Inr acc"
  by (induction decl arbitrary: acc) auto

lemma added_names:
  "map Inr added = map (\<lambda>(n, s). get_field_schema n s) (filter (\<lambda>(n, s). n \<notin> N) decl)
    \<Longrightarrow> map name added = filter (\<lambda>n. n \<notin> N) (map fst decl)"
proof (induction decl arbitrary: added)
  case Nil
  then show ?case by simp
next
  case (Cons d decl)
  obtain n s where d: "d = (n, s)" by (cases d)
  show ?case
  proof (cases "n \<in> N")
    case True
    with Cons d show ?thesis by simp
  next
    case False
    with Cons.prems d obtain f rest where fr: "added = f # rest" "get_field_schema n s = Inr f"
      "map Inr rest = map (\<lambda>(n, s). get_field_schema n s) (filter (\<lambda>(n, s). n \<notin> N) decl)"
      by (cases added) auto
    from Cons.IH [OF fr(3)] fr(1,2) False d show ?thesis
      by (simp add: get_field_schema_name)
  qed
qed

text \<open>
  C7. When the provisioner computes a schema, that schema is the table's current schema
  followed by the fields built from the declared fields whose names are not among the
  current names, in the order of the declaration: every current field keeps its place,
  its name, its type and its nested fields. Handed the schema it has computed, with the
  same declared schema, the provisioner computes that schema again.
\<close>

theorem table_provisioning_additive_idempotent:
  assumes "CheckAndCreateBigQueryTable_body declared current_schema = Inr new_schema"
  shows "\<exists>added. new_schema = current_schema @ added
      \<and> map Inr added = map (\<lambda>(n, s). get_field_schema n s)
            (filter (\<lambda>(n, s). n \<notin> set (map name current_schema)) declared)
      \<and> map name added = filter (\<lambda>n. n \<notin> set (map name current_schema)) (map fst declared)
      \<and> CheckAndCreateBigQueryTable_body declared new_schema = Inr new_schema"
proof -
  let ?N = "set (map name current_schema)"
  from assms have "append_missing (map name current_schema) declared current_schema = Inr new_schema"
    by (simp add: CheckAndCreateBigQueryTable_body_def)
  from append_missing_appends [OF this] obtain added where
    new: "new_schema = current_schema @ added"
    and added: "map Inr added = map (\<lambda>(n, s). get_field_schema n s)
        (filter (\<lambda>(n, s). n \<notin> ?N) declared)"
    by blast
  from added have names: "map name added = filter (\<lambda>n. n \<notin> ?N) (map fst declared)"
    by (rule added_names)
  have "fst ` set declared \<subseteq> set (map name new_schema)"
  proof
    fix n assume n: "n \<in> fst ` set declared"
    show "n \<in> set (map name new_schema)"
    proof (cases "n \<in> ?N")
      case True
      then show ?thesis by (simp add: new)
    next
      case False
      with n have "n \<in> set (filter (\<lambda>n. n \<notin> ?N) (map fst declared))" by simp
      then have "n \<in> set (map name added)" by (simp only: names)
      then show ?thesis by (simp add: new)
    qed
  qed
  then have "CheckAndCreateBigQueryTable_body declared new_schema = Inr new_schema"
    by (simp add: CheckAndCreateBigQueryTable_body_def append_missing_nothing)
  with new added names show ?thesis by blast
qed

theorem table_provisioning_additive_idempotent_witness:
  "CheckAndCreateBigQueryTable_body declared_example [SchemaField ''id'' ''INTEGER'' []]
     = Inr [SchemaField ''id'' ''INTEGER'' [],
            SchemaField ''source'' ''RECORD'' [SchemaField ''name'' ''STRING'' []]]
   \<and> CheckAndCreateBigQueryTable_body declared_example
       [SchemaField ''id'' ''INTEGER'' [],
        SchemaField ''source'' ''RECORD'' [SchemaField ''name'' ''STRING'' []]]
     = Inr [SchemaField ''id'' ''INTEGER'' [],
            SchemaField ''source'' ''RECORD'' [SchemaField ''name'' ''STRING'' []]]"
proof -
  have first: "CheckAndCreateBigQueryTable_body declared_example [SchemaField ''id'' ''INTEGER'' []]
      = Inr [SchemaField ''id'' ''INTEGER'' [],
             SchemaField ''source'' ''RECORD'' [SchemaField ''name'' ''STRING'' []]]"
    by (simp add: CheckAndCreateBigQueryTable_body_def declared_example_def)
  from table_provisioning_additive_idempotent [OF first] first show ?thesis by blast
qed

section \<open>Article identifiers\<close>








end
